theory Spec2Isabelle
  imports Complex_Main
begin

section \<open>Canonical values\<close>

text \<open>
  The payload of every wrapper is a Go value in canonical form: \<^verbatim>\<open>nil\<close>, \<^verbatim>\<open>bool\<close>,
  \<^verbatim>\<open>float64\<close>, \<^verbatim>\<open>string\<close>, \<^verbatim>\<open>[]interface{}\<close> or \<^verbatim>\<open>map[string]interface{}\<close>.
  A canonical number is a finite \<^verbatim>\<open>float64\<close> and is only ever compared with \<^verbatim>\<open>==\<close>, so it
  is represented by the real number it denotes. A Go map is an association list: the
  order of the list is the order in which \<^verbatim>\<open>range\<close> happens to visit the entries, which
  Go leaves open; the keys of a map are pairwise distinct (\<open>wellFormed\<close> below).
  Maps and slices nested in a canonical value are never \<^verbatim>\<open>nil\<close>.
\<close>

datatype canon =
    Null
  | Boolean bool
  | Number real
  | Str string
  | Sequence "canon list"
  | Mapping "(string \<times> canon) list"

type_synonym gomap = "(string \<times> canon) list"

fun wellFormed :: "canon \<Rightarrow> bool" where
  "wellFormed (Sequence xs) = list_all wellFormed xs"
| "wellFormed (Mapping m) = (distinct (map fst m) \<and> list_all (\<lambda>(k, v). wellFormed v) m)"
| "wellFormed _ = True"

text \<open>
  \<^verbatim>\<open>reflect.DeepEqual\<close> of the Go library, on canonical values: same dynamic type; slices
  of the same length that agree position by position; maps of the same length where
  every key of the first is a key of the second with a deeply equal value.
\<close>

fun deepEqual :: "canon \<Rightarrow> canon \<Rightarrow> bool" where
  "deepEqual Null Null = True"
| "deepEqual (Boolean a) (Boolean b) = (a = b)"
| "deepEqual (Number a) (Number b) = (a = b)"
| "deepEqual (Str a) (Str b) = (a = b)"
| "deepEqual (Sequence xs) (Sequence ys) = list_all2 deepEqual xs ys"
| "deepEqual (Mapping m1) (Mapping m2) =
     (length m1 = length m2 \<and>
      list_all (\<lambda>(k, v1). case map_of m2 k of None \<Rightarrow> False | Some v2 \<Rightarrow> deepEqual v1 v2) m1)"
| "deepEqual _ _ = False"

text \<open>
  \<^verbatim>\<open>reflect.DeepEqual\<close> on two values of static type \<^verbatim>\<open>map[string]interface{}\<close>, either of
  which may be the \<^verbatim>\<open>nil\<close> map (\<open>None\<close>): a \<^verbatim>\<open>nil\<close> map is deeply equal to a \<^verbatim>\<open>nil\<close> map only.
\<close>

fun deepEqualMap :: "gomap option \<Rightarrow> gomap option \<Rightarrow> bool" where
  "deepEqualMap None None = True"
| "deepEqualMap (Some m1) (Some m2) = deepEqual (Mapping m1) (Mapping m2)"
| "deepEqualMap _ _ = False"

text \<open>The type assertion \<^verbatim>\<open>v.(map[string]interface{})\<close> with its \<^verbatim>\<open>ok\<close> result.\<close>

fun asMap :: "canon \<Rightarrow> gomap option" where
  "asMap (Mapping m) = Some m"
| "asMap _ = None"

text \<open>Reading a map that may be \<^verbatim>\<open>nil\<close>: \<^verbatim>\<open>range\<close> and lookups see a \<^verbatim>\<open>nil\<close> map as empty.\<close>

fun entries :: "gomap option \<Rightarrow> gomap" where
  "entries None = []"
| "entries (Some m) = m"

text \<open>\<^verbatim>\<open>m[key]\<close> without the \<^verbatim>\<open>ok\<close> result: a missing key reads as the \<^verbatim>\<open>nil\<close> interface.\<close>

definition mapIndex :: "gomap option \<Rightarrow> string \<Rightarrow> canon" where
  "mapIndex m key = (case map_of (entries m) key of None \<Rightarrow> Null | Some v \<Rightarrow> v)"

section \<open>Partial-map containment\<close>

text \<open>
  \<^verbatim>\<open>checkContainsMap\<close>: the loop over the entries of \<open>inner\<close> is the recursion over the
  list; \<^verbatim>\<open>return false\<close> leaves the loop, \<^verbatim>\<open>continue\<close> and the end of the body go on with
  the remaining entries.
\<close>

function checkContainsMap :: "gomap \<Rightarrow> gomap \<Rightarrow> bool" where
  "checkContainsMap outer [] = True"
| "checkContainsMap outer ((k, iv) # rest) =
     (case map_of outer k of
        None \<Rightarrow> False
      | Some ov \<Rightarrow>
          (case asMap ov of
             Some ovm \<Rightarrow>
               (case asMap iv of
                  Some ivm \<Rightarrow>
                    if \<not> checkContainsMap ovm ivm then False
                    else checkContainsMap outer rest
                | None \<Rightarrow>
                    if \<not> deepEqual ov iv then False
                    else checkContainsMap outer rest)
           | None \<Rightarrow>
               if \<not> deepEqual ov iv then False
               else checkContainsMap outer rest))"
  by pat_completeness auto
termination
proof (relation "measure (\<lambda>(outer, inner). size (Mapping inner))")
  fix outer :: gomap and k iv rest ov ovm ivm
  assume "asMap iv = Some ivm"
  then have "iv = Mapping ivm" by (cases iv) simp_all
  then show "((ovm, ivm), (outer, (k, iv) # rest)) \<in> measure (\<lambda>(outer, inner). size (Mapping inner))"
    by simp
qed simp_all

text \<open>
  What one round of the loop checks for the entry \<open>(k, iv)\<close> of \<open>inner\<close>: the key is in
  \<open>outer\<close>; when both values are maps the inner one is contained in the outer one,
  otherwise the two are deeply equal.
\<close>

definition matchesAt :: "gomap \<Rightarrow> string \<Rightarrow> canon \<Rightarrow> bool" where
  "matchesAt outer k iv \<longleftrightarrow>
     (\<exists>ov. map_of outer k = Some ov \<and>
        (case (asMap ov, asMap iv) of
           (Some ovm, Some ivm) \<Rightarrow> checkContainsMap ovm ivm
         | _ \<Rightarrow> deepEqual ov iv))"

text \<open>Deleting a key from a map (Go's \<^verbatim>\<open>delete(m, key)\<close>).\<close>

definition removeKey :: "string \<Rightarrow> gomap \<Rightarrow> gomap" where
  "removeKey key m = filter (\<lambda>(k, v). k \<noteq> key) m"

section \<open>Failures, the chain and the canonicalizer\<close>

text \<open>
  A value handed in by the caller (\<^verbatim>\<open>interface{}\<close>, not yet canonical) is either a
  \<^verbatim>\<open>map[string]interface{}\<close>, possibly \<^verbatim>\<open>nil\<close>, of such values, or any other Go value,
  which stays opaque (\<open>'x\<close>).
\<close>

datatype 'x goval =
    MapVal "(string \<times> 'x goval) list option"
  | OtherVal 'x

text \<open>
  Modelled from the spec: the failure kinds (the constants \<^verbatim>\<open>failureInvalidInput\<close>,
  \<^verbatim>\<open>failureAssertKey\<close>, ... are used by the source but declared elsewhere). The spec
  lists the kinds equal, not-equal, contains, not-contains, key-missing, out-of-bounds,
  empty, not-empty, invalid-input and pattern-mismatch as one flat enumeration.
\<close>

datatype failureType =
    failureInvalidInput
  | failureAssertKey
  | failureAssertEqual
  | failureAssertNotEqual
  | failureAssertContains
  | failureAssertNotContains
  | failureAssertOutOfBounds
  | failureAssertMatchRe
  | failureAssertEmpty
  | failureAssertNotEmpty

text \<open>
  What the \<^verbatim>\<open>interface{}\<close> fields \<^verbatim>\<open>expected\<close> and \<^verbatim>\<open>actual\<close> of a \<^verbatim>\<open>Failure\<close> hold in the
  source: nothing, the caller's value as given, a canonical value, an object's map, a
  string, an \<^verbatim>\<open>int\<close>, a name table or a string slice.
\<close>

datatype 'x payload =
    Unset
  | OfRaw "'x goval"
  | OfValue canon
  | OfMap "gomap option"
  | OfString string
  | OfInt int
  | OfNames "string \<rightharpoonup> int"
  | OfStrings "string list"

text \<open>
  Modelled from the spec: the \<^verbatim>\<open>Failure\<close> record (its declaration is not among the
  sources; the fields are the ones the source's composite literals set).
\<close>

record 'x Failure =
  assertionName :: string
  assertType :: failureType
  expected :: "'x payload"
  actual :: "'x payload"
  err :: "string option"

text \<open>
  Modelled from the spec: the chain (\<^verbatim>\<open>makeChain\<close>, \<^verbatim>\<open>chain.fail\<close>, \<^verbatim>\<open>chain.failed\<close> are
  called by the source but defined elsewhere). The spec: states ok and failed, initially
  ok; \<^verbatim>\<open>fail\<close> moves to failed and hands the failure to the reporter at once, also when
  the chain has failed before; \<^verbatim>\<open>failed\<close> is a pure query. The reporter is represented
  by the list of failures it has been handed, oldest first.
\<close>

type_synonym 'x Reporter = "'x Failure list"

record 'x chain =
  failbit :: bool
  reporter :: "'x Reporter"

definition makeChain :: "'x Reporter \<Rightarrow> 'x chain" where
  "makeChain r = \<lparr>failbit = False, reporter = r\<rparr>"

definition chain_fail :: "'x chain \<Rightarrow> 'x Failure \<Rightarrow> 'x chain" where
  "chain_fail c f = c\<lparr>failbit := True, reporter := reporter c @ [f]\<rparr>"

definition chain_failed :: "'x chain \<Rightarrow> bool" where
  "chain_failed c = failbit c"

text \<open>
  Modelled from the spec: the canonicalizer (\<^verbatim>\<open>canonValue\<close> and \<^verbatim>\<open>canonMap\<close> are called by
  the source but defined elsewhere). How a Go value is normalised is a parameter \<open>cv\<close>
  of the model: it yields the canonical tree, or the error of an input that cannot be
  canonicalized. The spec: on such an input the result is \<^verbatim>\<open>ok = false\<close> and a failure of
  kind invalid-input is recorded through the chain; \<^verbatim>\<open>canonMap\<close> requires in addition
  that the canonical value is a mapping. The value returned beside \<^verbatim>\<open>ok = false\<close> is
  taken to be \<^verbatim>\<open>nil\<close>.
\<close>

type_synonym 'x canonicalizer = "'x goval \<Rightarrow> string + canon"

definition canonValue :: "'x canonicalizer \<Rightarrow> 'x chain \<Rightarrow> 'x goval \<Rightarrow> 'x chain \<times> canon \<times> bool" where
  "canonValue cv c input =
     (case cv input of
        Inl e \<Rightarrow>
          (chain_fail c \<lparr>assertionName = [], assertType = failureInvalidInput,
                         expected = Unset, actual = Unset, err = Some e\<rparr>,
           Null, False)
      | Inr v \<Rightarrow> (c, v, True))"

definition canonMap :: "'x canonicalizer \<Rightarrow> 'x chain \<Rightarrow> 'x goval \<Rightarrow> 'x chain \<times> gomap option \<times> bool" where
  "canonMap cv c input =
     (case canonValue cv c input of
        (c', v, ok) \<Rightarrow>
          if \<not> ok then (c', None, False)
          else
            (case asMap v of
               None \<Rightarrow>
                 (chain_fail c' \<lparr>assertionName = [], assertType = failureInvalidInput,
                                 expected = Unset, actual = Unset, err = None\<rparr>,
                  None, False)
             | Some m \<Rightarrow> (c', Some m, True)))"

section \<open>The wrappers\<close>

text \<open>
  Each wrapper struct holds its chain and its payload. A method with a pointer receiver
  is a function from the wrapper (and the arguments) to the wrapper as the call leaves
  it; a method that returns a new wrapper returns it beside the receiver when it writes
  to the receiver, and alone when it only reads.
\<close>

record 'x Object =
  chain :: "'x chain"
  "value" :: "gomap option"

text \<open>
  Modelled from the spec: the wrappers \<^verbatim>\<open>Value\<close>, \<^verbatim>\<open>Array\<close>, \<^verbatim>\<open>Number\<close> and \<^verbatim>\<open>String\<close> that
  the methods return (declared elsewhere): a chain and a payload, as the source's
  composite literals build them.
\<close>

record 'x Value =
  chain :: "'x chain"
  "value" :: canon

record 'x Array =
  chain :: "'x chain"
  "value" :: "canon list"

record 'x Number =
  chain :: "'x chain"
  "value" :: real

record 'x String =
  chain :: "'x chain"
  "value" :: string

record 'x Match =
  chain :: "'x chain"
  submatches :: "string list"
  names :: "string \<rightharpoonup> int"

subsection \<open>Object\<close>

definition NewObject :: "'x Reporter \<Rightarrow> 'x canonicalizer \<Rightarrow> (string \<times> 'x goval) list option \<Rightarrow> 'x Object" where
  "NewObject r cv v =
     (let c = makeChain r in
      if v = None then
        \<lparr>Object.chain =
           chain_fail c \<lparr>assertionName = [], assertType = failureInvalidInput,
                          expected = Unset, actual = Unset,
                          err = Some ''expected non-nil map value''\<rparr>,
         Object.value = None\<rparr>
      else
        (case canonMap cv c (MapVal v) of
           (c', v', ok) \<Rightarrow> \<lparr>Object.chain = c', Object.value = v'\<rparr>))"

definition Object_Raw :: "'x Object \<Rightarrow> gomap option" where
  "Object_Raw obj = Object.value obj"

text \<open>
  \<^verbatim>\<open>getPath\<close> and \<^verbatim>\<open>checkSchema\<close> are defined elsewhere (JSON path and schema validation);
  they are parameters here. Each is handed the chain by pointer and the map to read.
\<close>

definition Object_Path ::
  "('x chain \<Rightarrow> gomap option \<Rightarrow> string \<Rightarrow> 'x chain \<times> 'x Value) \<Rightarrow> 'x Object \<Rightarrow> string \<Rightarrow> 'x Object \<times> 'x Value" where
  "Object_Path getPath obj path =
     (case getPath (Object.chain obj) (Object.value obj) path of
        (c, v) \<Rightarrow> (obj\<lparr>Object.chain := c\<rparr>, v))"

definition Object_Schema ::
  "('x chain \<Rightarrow> gomap option \<Rightarrow> 'x goval \<Rightarrow> 'x chain) \<Rightarrow> 'x Object \<Rightarrow> 'x goval \<Rightarrow> 'x Object" where
  "Object_Schema checkSchema obj schema =
     obj\<lparr>Object.chain := checkSchema (Object.chain obj) (Object.value obj) schema\<rparr>"

definition Object_Keys :: "'x Object \<Rightarrow> 'x Array" where
  "Object_Keys obj =
     \<lparr>Array.chain = Object.chain obj,
      Array.value = map (\<lambda>(k, v). Str k) (entries (Object.value obj))\<rparr>"

definition Object_Values :: "'x Object \<Rightarrow> 'x Array" where
  "Object_Values obj =
     \<lparr>Array.chain = Object.chain obj,
      Array.value = map (\<lambda>(k, v). v) (entries (Object.value obj))\<rparr>"

definition Object_Value :: "'x Object \<Rightarrow> string \<Rightarrow> 'x Object \<times> 'x Value" where
  "Object_Value obj key =
     (case map_of (entries (Object.value obj)) key of
        None \<Rightarrow>
          (let c = chain_fail (Object.chain obj)
                     \<lparr>assertionName = ''Object.Value'', assertType = failureAssertKey,
                      expected = OfString key, actual = OfMap (Object.value obj), err = None\<rparr>
           in (obj\<lparr>Object.chain := c\<rparr>, \<lparr>Value.chain = c, Value.value = Null\<rparr>))
      | Some v \<Rightarrow> (obj, \<lparr>Value.chain = Object.chain obj, Value.value = v\<rparr>))"

definition Object_Equal :: "'x canonicalizer \<Rightarrow> 'x Object \<Rightarrow> 'x goval \<Rightarrow> 'x Object" where
  "Object_Equal cv obj v =
     (case canonMap cv (Object.chain obj) v of
        (c, expected', ok) \<Rightarrow>
          if \<not> ok then obj\<lparr>Object.chain := c\<rparr>
          else if \<not> deepEqualMap expected' (Object.value obj) then
            obj\<lparr>Object.chain :=
                chain_fail c \<lparr>assertionName = ''Object.Equal'', assertType = failureAssertEqual,
                               expected = OfMap expected', actual = OfMap (Object.value obj),
                               err = None\<rparr>\<rparr>
          else obj\<lparr>Object.chain := c\<rparr>)"

definition Object_NotEqual :: "'x canonicalizer \<Rightarrow> 'x Object \<Rightarrow> 'x goval \<Rightarrow> 'x Object" where
  "Object_NotEqual cv obj v =
     (case canonMap cv (Object.chain obj) v of
        (c, expected', ok) \<Rightarrow>
          if \<not> ok then obj\<lparr>Object.chain := c\<rparr>
          else if deepEqualMap expected' (Object.value obj) then
            obj\<lparr>Object.chain :=
                chain_fail c \<lparr>assertionName = ''Object.NotEqual'',
                               assertType = failureAssertNotEqual,
                               expected = OfRaw v, actual = Unset, err = None\<rparr>\<rparr>
          else obj\<lparr>Object.chain := c\<rparr>)"

definition Object_Empty :: "'x canonicalizer \<Rightarrow> 'x Object \<Rightarrow> 'x Object" where
  "Object_Empty cv obj = Object_Equal cv obj (MapVal (Some []))"

definition Object_NotEmpty :: "'x canonicalizer \<Rightarrow> 'x Object \<Rightarrow> 'x Object" where
  "Object_NotEmpty cv obj = Object_NotEqual cv obj (MapVal (Some []))"

text \<open>\<^verbatim>\<open>containsKey\<close>: the loop returns true at the first key equal to \<open>key\<close>.\<close>

fun containsKey_loop :: "gomap \<Rightarrow> string \<Rightarrow> bool" where
  "containsKey_loop [] key = False"
| "containsKey_loop ((k, v) # rest) key = (if k = key then True else containsKey_loop rest key)"

definition containsKey :: "'x Object \<Rightarrow> string \<Rightarrow> bool" where
  "containsKey obj key = containsKey_loop (entries (Object.value obj)) key"

definition Object_ContainsKey :: "'x Object \<Rightarrow> string \<Rightarrow> 'x Object" where
  "Object_ContainsKey obj key =
     (if \<not> containsKey obj key then
        obj\<lparr>Object.chain :=
            chain_fail (Object.chain obj)
              \<lparr>assertionName = ''Object.ContainsKey'', assertType = failureAssertKey,
               expected = OfString key, actual = OfMap (Object.value obj), err = None\<rparr>\<rparr>
      else obj)"

definition Object_NotContainsKey :: "'x Object \<Rightarrow> string \<Rightarrow> 'x Object" where
  "Object_NotContainsKey obj key =
     (if containsKey obj key then
        obj\<lparr>Object.chain :=
            chain_fail (Object.chain obj)
              \<lparr>assertionName = ''Object.NotContainsKey'', assertType = failureAssertKey,
               expected = OfString key, actual = OfMap (Object.value obj), err = None\<rparr>\<rparr>
      else obj)"

text \<open>
  \<^verbatim>\<open>containsMap\<close> canonicalizes through the receiver's chain, so it returns the chain
  beside its result.
\<close>

definition containsMap :: "'x canonicalizer \<Rightarrow> 'x Object \<Rightarrow> 'x goval \<Rightarrow> 'x Object \<times> bool" where
  "containsMap cv obj sm =
     (case canonMap cv (Object.chain obj) sm of
        (c, submap, ok) \<Rightarrow>
          if \<not> ok then (obj\<lparr>Object.chain := c\<rparr>, False)
          else (obj\<lparr>Object.chain := c\<rparr>,
                checkContainsMap (entries (Object.value obj)) (entries submap)))"

definition Object_ContainsMap :: "'x canonicalizer \<Rightarrow> 'x Object \<Rightarrow> 'x goval \<Rightarrow> 'x Object" where
  "Object_ContainsMap cv obj v =
     (case containsMap cv obj v of
        (obj', r) \<Rightarrow>
          if \<not> r then
            obj'\<lparr>Object.chain :=
                 chain_fail (Object.chain obj')
                   \<lparr>assertionName = ''Object.ContainsMap'', assertType = failureAssertContains,
                    expected = OfRaw v, actual = OfMap (Object.value obj'), err = None\<rparr>\<rparr>
          else obj')"

definition Object_NotContainsMap :: "'x canonicalizer \<Rightarrow> 'x Object \<Rightarrow> 'x goval \<Rightarrow> 'x Object" where
  "Object_NotContainsMap cv obj v =
     (case containsMap cv obj v of
        (obj', r) \<Rightarrow>
          if r then
            obj'\<lparr>Object.chain :=
                 chain_fail (Object.chain obj')
                   \<lparr>assertionName = ''Object.NotContainsMap'',
                    assertType = failureAssertNotContains,
                    expected = OfRaw v, actual = OfMap (Object.value obj'), err = None\<rparr>\<rparr>
          else obj')"

definition Object_ValueEqual :: "'x canonicalizer \<Rightarrow> 'x Object \<Rightarrow> string \<Rightarrow> 'x goval \<Rightarrow> 'x Object" where
  "Object_ValueEqual cv obj key v =
     (let o1 = Object_ContainsKey obj key in
      if chain_failed (Object.chain o1) then o1
      else
        (case canonValue cv (Object.chain o1) v of
           (c, expected', ok) \<Rightarrow>
             if \<not> ok then o1\<lparr>Object.chain := c\<rparr>
             else if \<not> deepEqual expected' (mapIndex (Object.value o1) key) then
               o1\<lparr>Object.chain :=
                    chain_fail c
                      \<lparr>assertionName = ''Object.ValueEqual'', assertType = failureAssertEqual,
                       expected = OfValue expected',
                       actual = OfValue (mapIndex (Object.value o1) key), err = None\<rparr>\<rparr>
             else o1\<lparr>Object.chain := c\<rparr>))"

definition Object_ValueNotEqual :: "'x canonicalizer \<Rightarrow> 'x Object \<Rightarrow> string \<Rightarrow> 'x goval \<Rightarrow> 'x Object" where
  "Object_ValueNotEqual cv obj key v =
     (let o1 = Object_ContainsKey obj key in
      if chain_failed (Object.chain o1) then o1
      else
        (case canonValue cv (Object.chain o1) v of
           (c, expected', ok) \<Rightarrow>
             if \<not> ok then o1\<lparr>Object.chain := c\<rparr>
             else if deepEqual expected' (mapIndex (Object.value o1) key) then
               o1\<lparr>Object.chain :=
                    chain_fail c
                      \<lparr>assertionName = ''Object.ValueNotEqual'',
                       assertType = failureAssertNotEqual,
                       expected = OfValue expected', actual = Unset, err = None\<rparr>\<rparr>
             else o1\<lparr>Object.chain := c\<rparr>))"

subsection \<open>Match\<close>

text \<open>
  \<^verbatim>\<open>makeMatch\<close>: \<open>submatches\<close> may be \<^verbatim>\<open>nil\<close> (\<open>None\<close>) and is replaced by the empty slice;
  \<open>names\<close> is only ranged over, so a \<^verbatim>\<open>nil\<close> slice of names is the empty list. The loop
  \<^verbatim>\<open>for n, name := range names\<close> is \<open>namemap_loop\<close>, started at index 0 with the empty table.
\<close>

fun namemap_loop :: "int \<Rightarrow> string list \<Rightarrow> (string \<rightharpoonup> int) \<Rightarrow> (string \<rightharpoonup> int)" where
  "namemap_loop n [] namemap = namemap"
| "namemap_loop n (name # rest) namemap =
     namemap_loop (n + 1) rest (if name \<noteq> [] then namemap(name \<mapsto> n) else namemap)"

definition makeMatch :: "'x chain \<Rightarrow> string list option \<Rightarrow> string list \<Rightarrow> 'x Match" where
  "makeMatch c submatches' names' =
     (let submatches'' = (case submatches' of None \<Rightarrow> [] | Some s \<Rightarrow> s);
          namemap = namemap_loop 0 names' Map.empty
      in \<lparr>Match.chain = c, submatches = submatches'', names = namemap\<rparr>)"

definition NewMatch :: "'x Reporter \<Rightarrow> string list option \<Rightarrow> string list \<Rightarrow> 'x Match" where
  "NewMatch r submatches' names' = makeMatch (makeChain r) submatches' names'"

definition Match_Raw :: "'x Match \<Rightarrow> string list" where
  "Match_Raw m = submatches m"

definition Match_Length :: "'x Match \<Rightarrow> 'x Number" where
  "Match_Length m =
     \<lparr>Number.chain = Match.chain m, Number.value = real (length (submatches m))\<rparr>"

text \<open>
  \<open>index\<close> is a Go \<^verbatim>\<open>int\<close>; it is only compared, never computed with, so it is an
  integer here. In range, \<^verbatim>\<open>m.submatches[index]\<close> is \<open>submatches m ! nat index\<close>.
\<close>

definition Match_Index :: "'x Match \<Rightarrow> int \<Rightarrow> 'x Match \<times> 'x String" where
  "Match_Index m index =
     (if index < 0 \<or> index \<ge> int (length (submatches m)) then
        (let c = chain_fail (Match.chain m)
                   \<lparr>assertionName = ''Match.Index'', assertType = failureAssertOutOfBounds,
                    expected = OfInt index, actual = OfInt (int (length (submatches m))),
                    err = None\<rparr>
         in (m\<lparr>Match.chain := c\<rparr>, \<lparr>String.chain = c, String.value = []\<rparr>))
      else (m, \<lparr>String.chain = Match.chain m, String.value = submatches m ! nat index\<rparr>))"

definition Match_Name :: "'x Match \<Rightarrow> string \<Rightarrow> 'x Match \<times> 'x String" where
  "Match_Name m name =
     (case names m name of
        None \<Rightarrow>
          (let c = chain_fail (Match.chain m)
                     \<lparr>assertionName = ''Match.Name'', assertType = failureAssertMatchRe,
                      expected = OfNames (names m), actual = OfString name, err = None\<rparr>
           in (m\<lparr>Match.chain := c\<rparr>, \<lparr>String.chain = c, String.value = []\<rparr>))
      | Some index \<Rightarrow> Match_Index m index)"

definition Match_Empty :: "'x Match \<Rightarrow> 'x Match" where
  "Match_Empty m =
     (if length (submatches m) \<noteq> 0 then
        m\<lparr>Match.chain :=
            chain_fail (Match.chain m)
              \<lparr>assertionName = ''Match.Empty'', assertType = failureAssertEmpty,
               expected = Unset, actual = OfStrings (submatches m), err = None\<rparr>\<rparr>
      else m)"

definition Match_NotEmpty :: "'x Match \<Rightarrow> 'x Match" where
  "Match_NotEmpty m =
     (if length (submatches m) = 0 then
        m\<lparr>Match.chain :=
            chain_fail (Match.chain m)
              \<lparr>assertionName = ''Match.NotEmpty'', assertType = failureAssertNotEmpty,
               expected = Unset, actual = Unset, err = None\<rparr>\<rparr>
      else m)"

definition getValues :: "'x Match \<Rightarrow> string list" where
  "getValues m = (if length (submatches m) > 1 then drop 1 (submatches m) else [])"

text \<open>
  The variadic \<open>values\<close> is \<^verbatim>\<open>nil\<close> (\<open>None\<close>) when the call has no arguments. On two
  non-\<^verbatim>\<open>nil\<close> string slices \<^verbatim>\<open>reflect.DeepEqual\<close> is equality of the lists.
\<close>

definition Match_Values :: "'x Match \<Rightarrow> string list option \<Rightarrow> 'x Match" where
  "Match_Values m values =
     (let values' = (case values of None \<Rightarrow> [] | Some vs \<Rightarrow> vs) in
      if \<not> (values' = getValues m) then
        m\<lparr>Match.chain :=
            chain_fail (Match.chain m)
              \<lparr>assertionName = ''Match.Values'', assertType = failureAssertEqual,
               expected = OfStrings values', actual = OfStrings (getValues m), err = None\<rparr>\<rparr>
      else m)"

definition Match_NotValues :: "'x Match \<Rightarrow> string list option \<Rightarrow> 'x Match" where
  "Match_NotValues m values =
     (let values' = (case values of None \<Rightarrow> [] | Some vs \<Rightarrow> vs) in
      if values' = getValues m then
        m\<lparr>Match.chain :=
            chain_fail (Match.chain m)
              \<lparr>assertionName = ''Match.NotValues'', assertType = failureAssertNotEqual,
               expected = OfStrings values', actual = Unset, err = None\<rparr>\<rparr>
      else m)"

section \<open>Properties of partial-map containment\<close>

lemma checkContainsMap_Cons:
  "checkContainsMap outer ((k, iv) # rest) \<longleftrightarrow>
     matchesAt outer k iv \<and> checkContainsMap outer rest"
  by (cases "map_of outer k") (auto simp: matchesAt_def split: option.splits)

lemma checkContainsMap_iff:
  "checkContainsMap outer inner \<longleftrightarrow> (\<forall>(k, iv) \<in> set inner. matchesAt outer k iv)"
proof (induction inner)
  case Nil
  show ?case by simp
next
  case (Cons e rest)
  obtain k iv where e: "e = (k, iv)" by (cases e)
  show ?case unfolding e using Cons.IH by (simp only: checkContainsMap_Cons) auto
qed

lemma deepEqual_refl: "wellFormed v \<Longrightarrow> deepEqual v v"
proof (induction v)
  case (Sequence xs)
  then show ?case by (auto simp: list_all_iff list_all2_same)
next
  case (Mapping m)
  have "\<And>k v. (k, v) \<in> set m \<Longrightarrow> map_of m k = Some v \<and> deepEqual v v"
  proof -
    fix k v assume kv: "(k, v) \<in> set m"
    from Mapping.prems have "distinct (map fst m)" and "wellFormed v"
      using kv by (auto simp: list_all_iff)
    with kv Mapping.IH show "map_of m k = Some v \<and> deepEqual v v"
      by fastforce
  qed
  then show ?case by (auto simp: list_all_iff)
qed simp_all

lemma checkContainsMap_refl_aux:
  "wellFormed v \<Longrightarrow> asMap v = Some m \<Longrightarrow> checkContainsMap m m"
proof (induction v arbitrary: m)
  case (Mapping m')
  then have m: "m' = m" by simp
  have "matchesAt m k iv" if kv: "(k, iv) \<in> set m" for k iv
  proof -
    from Mapping.prems kv have d: "distinct (map fst m)" and w: "wellFormed iv"
      by (auto simp: m list_all_iff)
    from d kv have look: "map_of m k = Some iv" by simp
    show ?thesis
    proof (cases "asMap iv")
      case None
      with look deepEqual_refl [OF w] show ?thesis by (simp add: matchesAt_def)
    next
      case (Some ivm)
      have "checkContainsMap ivm ivm"
        using Mapping.IH [of "(k, iv)" iv ivm] kv w Some unfolding m by simp
      with look Some show ?thesis by (simp add: matchesAt_def)
    qed
  qed
  then show ?case by (auto simp: checkContainsMap_iff)
qed simp_all

lemma checkContainsMap_removeKey:
  "checkContainsMap outer inner \<Longrightarrow> checkContainsMap outer (removeKey key inner)"
  by (auto simp: checkContainsMap_iff removeKey_def)



lemma wellFormed_entry:
  "wellFormed (Mapping m) \<Longrightarrow> (k, v) \<in> set m \<Longrightarrow> wellFormed v \<and> map_of m k = Some v"
  by (auto simp: list_all_iff)

lemma deepEqual_keys:
  assumes "wellFormed (Mapping a)" "wellFormed (Mapping b)" "deepEqual (Mapping a) (Mapping b)"
  shows "fst ` set a = fst ` set b"
proof -
  from assms have da: "distinct (map fst a)" and db: "distinct (map fst b)"
    and len: "length a = length b" by simp_all
  have sub: "fst ` set a \<subseteq> fst ` set b"
  proof
    fix k assume "k \<in> fst ` set a"
    then obtain v where "(k, v) \<in> set a" by auto
    with assms(3) have "map_of b k \<noteq> None"
      by (auto simp: list_all_iff split: option.splits)
    then show "k \<in> fst ` set b" by (simp add: map_of_eq_None_iff)
  qed
  have "card (fst ` set a) = length a"
    using da distinct_card [of "map fst a"] by simp
  moreover have "card (fst ` set b) = length b"
    using db distinct_card [of "map fst b"] by simp
  ultimately have "card (fst ` set a) = card (fst ` set b)" using len by simp
  with sub show ?thesis by (simp add: card_subset_eq)
qed

lemma deepEqual_imp_checkContainsMap:
  "wellFormed ov \<Longrightarrow> wellFormed iv \<Longrightarrow> deepEqual ov iv \<Longrightarrow>
   asMap ov = Some a \<Longrightarrow> asMap iv = Some b \<Longrightarrow> checkContainsMap a b"
proof (induction ov arbitrary: iv a b)
  case (Mapping a')
  then have a: "a' = a" and iv: "iv = Mapping b" by (simp, cases iv, simp_all)
  note wa = Mapping.prems(1) [unfolded a] and wb = Mapping.prems(2) [unfolded iv]
  note eq = Mapping.prems(3) [unfolded a iv]
  have keys: "fst ` set a = fst ` set b" by (rule deepEqual_keys [OF wa wb eq])
  have "matchesAt a k v2" if kv: "(k, v2) \<in> set b" for k v2
  proof -
    from kv keys have "k \<in> fst ` set a" by force
    then obtain v1 where k1: "(k, v1) \<in> set a" by auto
    from wellFormed_entry [OF wa k1] have w1: "wellFormed v1" and l1: "map_of a k = Some v1"
      by simp_all
    from wellFormed_entry [OF wb kv] have w2: "wellFormed v2" and l2: "map_of b k = Some v2"
      by simp_all
    from eq k1 l2 have de: "deepEqual v1 v2" by (auto simp: list_all_iff)
    show ?thesis
    proof (cases "asMap v1")
      case None
      with l1 de show ?thesis by (simp add: matchesAt_def)
    next
      case s1: (Some m1)
      show ?thesis
      proof (cases "asMap v2")
        case None
        with l1 de s1 show ?thesis by (simp add: matchesAt_def)
      next
        case s2: (Some m2)
        have "checkContainsMap m1 m2"
          using Mapping.IH [of "(k, v1)" v1 v2 m1 m2] k1 w1 w2 de s1 s2 unfolding a by simp
        with l1 s1 s2 show ?thesis by (simp add: matchesAt_def)
      qed
    qed
  qed
  then show ?case by (auto simp: checkContainsMap_iff)
qed simp_all

lemma asMap_Some_iff: "asMap v = Some m \<longleftrightarrow> v = Mapping m"
  by (cases v) auto

lemma matchesAt_disj:
  assumes "wellFormed (Mapping outer)" "wellFormed iv"
  shows "matchesAt outer k iv \<longleftrightarrow>
     (\<exists>ov. map_of outer k = Some ov \<and>
        ((\<exists>ovm ivm. ov = Mapping ovm \<and> iv = Mapping ivm \<and> checkContainsMap ovm ivm) \<or>
         deepEqual ov iv))"
proof
  assume "matchesAt outer k iv"
  then obtain ov where l: "map_of outer k = Some ov"
    and c: "case (asMap ov, asMap iv) of (Some ovm, Some ivm) \<Rightarrow> checkContainsMap ovm ivm
            | _ \<Rightarrow> deepEqual ov iv"
    unfolding matchesAt_def by blast
  from c have "(\<exists>ovm ivm. ov = Mapping ovm \<and> iv = Mapping ivm \<and> checkContainsMap ovm ivm) \<or>
         deepEqual ov iv"
    by (auto simp: asMap_Some_iff split: option.splits)
  with l show "\<exists>ov. map_of outer k = Some ov \<and>
        ((\<exists>ovm ivm. ov = Mapping ovm \<and> iv = Mapping ivm \<and> checkContainsMap ovm ivm) \<or>
         deepEqual ov iv)" by blast
next
  assume "\<exists>ov. map_of outer k = Some ov \<and>
        ((\<exists>ovm ivm. ov = Mapping ovm \<and> iv = Mapping ivm \<and> checkContainsMap ovm ivm) \<or>
         deepEqual ov iv)"
  then obtain ov where l: "map_of outer k = Some ov"
    and d: "(\<exists>ovm ivm. ov = Mapping ovm \<and> iv = Mapping ivm \<and> checkContainsMap ovm ivm) \<or>
         deepEqual ov iv" by blast
  from l have "(k, ov) \<in> set outer" by (rule map_of_SomeD)
  with assms(1) have wo: "wellFormed ov" by (auto simp: list_all_iff)
  from d show "matchesAt outer k iv"
  proof
    assume "\<exists>ovm ivm. ov = Mapping ovm \<and> iv = Mapping ivm \<and> checkContainsMap ovm ivm"
    with l show ?thesis by (auto simp: matchesAt_def)
  next
    assume de: "deepEqual ov iv"
    show ?thesis
    proof (cases "asMap ov")
      case None
      with l de show ?thesis by (simp add: matchesAt_def)
    next
      case s1: (Some ovm)
      show ?thesis
      proof (cases "asMap iv")
        case None
        with l de s1 show ?thesis by (simp add: matchesAt_def)
      next
        case s2: (Some ivm)
        from deepEqual_imp_checkContainsMap [OF wo assms(2) de s1 s2] l s1 s2
        show ?thesis by (simp add: matchesAt_def)
      qed
    qed
  qed
qed

lemma reporter_chain_fail: "reporter (chain_fail c f) = reporter c @ [f]"
  by (simp add: chain_fail_def)

lemma failbit_chain_fail: "failbit (chain_fail c f)"
  by (simp add: chain_fail_def)

lemma canonMap_Mapping: "cv v = Inr (Mapping m) \<Longrightarrow> canonMap cv c v = (c, Some m, True)"
  by (simp add: canonMap_def canonValue_def)



text \<open>
  C1. For Go maps \<open>outer\<close> and \<open>inner\<close> (canonical, keys distinct), \<open>checkContainsMap\<close>
  holds exactly when every entry \<open>(k, iv)\<close> of \<open>inner\<close> has its key in \<open>outer\<close> and, with
  \<open>ov\<close> the value of \<open>outer\<close> there, either both are maps and \<open>ov\<close> contains \<open>iv\<close>, or
  \<open>ov\<close> and \<open>iv\<close> are deeply equal. In particular a slice under a key of \<open>inner\<close> needs a
  slice of the same length under that key of \<open>outer\<close> that agrees with it position by
  position. \<open>Object.ContainsMap\<close>, given a value that canonicalizes to \<open>inner\<close>, reports
  no failure exactly when \<open>checkContainsMap\<close> holds of the object's map and \<open>inner\<close>.
\<close>

theorem checkContainsMap_characterisation:
  assumes "wellFormed (Mapping outer)" and "wellFormed (Mapping inner)"
  shows "(checkContainsMap outer inner \<longleftrightarrow>
            (\<forall>(k, iv) \<in> set inner.
               \<exists>ov. map_of outer k = Some ov \<and>
                 ((\<exists>ovm ivm. ov = Mapping ovm \<and> iv = Mapping ivm \<and> checkContainsMap ovm ivm) \<or>
                  deepEqual ov iv)))
       \<and> (checkContainsMap outer inner \<and> (key, Sequence ys) \<in> set inner \<longrightarrow>
            (\<exists>xs. map_of outer key = Some (Sequence xs) \<and> length xs = length ys \<and>
                  (\<forall>i < length ys. deepEqual (xs ! i) (ys ! i))))
       \<and> (Object.value obj = Some outer \<and> cv v = Inr (Mapping inner) \<longrightarrow>
            (reporter (Object.chain (Object_ContainsMap cv obj v)) = reporter (Object.chain obj)
               \<longleftrightarrow> checkContainsMap outer inner))"
proof (intro conjI)
  have w: "\<And>k iv. (k, iv) \<in> set inner \<Longrightarrow> wellFormed iv"
    using assms(2) by (auto simp: list_all_iff)
  have "checkContainsMap outer inner \<longleftrightarrow> (\<forall>(k, iv) \<in> set inner. matchesAt outer k iv)"
    by (rule checkContainsMap_iff)
  also have "\<dots> \<longleftrightarrow> (\<forall>(k, iv) \<in> set inner.
               \<exists>ov. map_of outer k = Some ov \<and>
                 ((\<exists>ovm ivm. ov = Mapping ovm \<and> iv = Mapping ivm \<and> checkContainsMap ovm ivm) \<or>
                  deepEqual ov iv))"
  proof (rule ball_cong [OF refl])
    fix x assume x: "x \<in> set inner"
    obtain k iv where kv: "x = (k, iv)" by (cases x)
    from matchesAt_disj [OF assms(1) w, of k iv k] x kv
    show "(case x of (k, iv) \<Rightarrow> matchesAt outer k iv) \<longleftrightarrow>
          (case x of (k, iv) \<Rightarrow> \<exists>ov. map_of outer k = Some ov \<and>
                 ((\<exists>ovm ivm. ov = Mapping ovm \<and> iv = Mapping ivm \<and> checkContainsMap ovm ivm) \<or>
                  deepEqual ov iv))"
      by simp
  qed
  finally show "checkContainsMap outer inner \<longleftrightarrow>
            (\<forall>(k, iv) \<in> set inner.
               \<exists>ov. map_of outer k = Some ov \<and>
                 ((\<exists>ovm ivm. ov = Mapping ovm \<and> iv = Mapping ivm \<and> checkContainsMap ovm ivm) \<or>
                  deepEqual ov iv))" .
next
  show "checkContainsMap outer inner \<and> (key, Sequence ys) \<in> set inner \<longrightarrow>
            (\<exists>xs. map_of outer key = Some (Sequence xs) \<and> length xs = length ys \<and>
                  (\<forall>i < length ys. deepEqual (xs ! i) (ys ! i)))"
  proof
    assume h: "checkContainsMap outer inner \<and> (key, Sequence ys) \<in> set inner"
    then have "matchesAt outer key (Sequence ys)" by (auto simp: checkContainsMap_iff)
    then obtain ov where l: "map_of outer key = Some ov" and de: "deepEqual ov (Sequence ys)"
      by (auto simp: matchesAt_def split: option.splits)
    from de obtain xs where ov: "ov = Sequence xs" by (cases ov) simp_all
    with de have "list_all2 deepEqual xs ys" by simp
    then have "length xs = length ys \<and> (\<forall>i < length ys. deepEqual (xs ! i) (ys ! i))"
      by (simp add: list_all2_conv_all_nth)
    with l ov show "\<exists>xs. map_of outer key = Some (Sequence xs) \<and> length xs = length ys \<and>
                  (\<forall>i < length ys. deepEqual (xs ! i) (ys ! i))" by blast
  qed
next
  show "Object.value obj = Some outer \<and> cv v = Inr (Mapping inner) \<longrightarrow>
            (reporter (Object.chain (Object_ContainsMap cv obj v)) = reporter (Object.chain obj)
               \<longleftrightarrow> checkContainsMap outer inner)"
    by (simp add: Object_ContainsMap_def containsMap_def canonMap_Mapping reporter_chain_fail)
qed

theorem checkContainsMap_characterisation_witness:
  "wellFormed (Mapping [(''foo'', Number 123),
                        (''bar'', Mapping [(''a'', Boolean True), (''b'', Boolean False)]),
                        (''baz'', Sequence [Str ''x'', Str ''y''])])
   \<and> wellFormed (Mapping [(''baz'', Sequence [Str ''x'', Str ''y'']),
                          (''bar'', Mapping [(''a'', Boolean True)])])
   \<and> checkContainsMap
        [(''foo'', Number 123),
         (''bar'', Mapping [(''a'', Boolean True), (''b'', Boolean False)]),
         (''baz'', Sequence [Str ''x'', Str ''y''])]
        [(''baz'', Sequence [Str ''x'', Str ''y'']),
         (''bar'', Mapping [(''a'', Boolean True)])]
   \<and> (\<exists>xs. map_of [(''foo'', Number 123),
                    (''bar'', Mapping [(''a'', Boolean True), (''b'', Boolean False)]),
                    (''baz'', Sequence [Str ''x'', Str ''y''])] ''baz'' = Some (Sequence xs)
          \<and> length xs = length [Str ''x'', Str ''y'']
          \<and> (\<forall>i < length [Str ''x'', Str ''y'']. deepEqual (xs ! i) ([Str ''x'', Str ''y''] ! i)))
   \<and> reporter (Object.chain (Object_ContainsMap
        (\<lambda>v. Inr (Mapping [(''baz'', Sequence [Str ''x'', Str ''y'']),
                            (''bar'', Mapping [(''a'', Boolean True)])]))
        \<lparr>Object.chain = makeChain ([] :: unit Reporter),
         Object.value = Some [(''foo'', Number 123),
                              (''bar'', Mapping [(''a'', Boolean True), (''b'', Boolean False)]),
                              (''baz'', Sequence [Str ''x'', Str ''y''])]\<rparr>
        (OtherVal ()))) = []
   \<and> wellFormed (Mapping [(''a'', Sequence [Number 1, Number 2, Number 3])])
   \<and> wellFormed (Mapping [(''a'', Sequence [Number 1, Number 2])])
   \<and> \<not> checkContainsMap [(''a'', Sequence [Number 1, Number 2, Number 3])]
                         [(''a'', Sequence [Number 1, Number 2])]"
proof -
  let ?outer = "[(''foo'', Number 123),
                 (''bar'', Mapping [(''a'', Boolean True), (''b'', Boolean False)]),
                 (''baz'', Sequence [Str ''x'', Str ''y''])]"
  let ?inner = "[(''baz'', Sequence [Str ''x'', Str ''y'']),
                 (''bar'', Mapping [(''a'', Boolean True)])]"
  let ?cv = "\<lambda>v :: unit goval. (Inr (Mapping ?inner) :: string + canon)"
  let ?obj = "\<lparr>Object.chain = makeChain ([] :: unit Reporter), Object.value = Some ?outer\<rparr>"
  have w1: "wellFormed (Mapping ?outer)" by simp
  have w2: "wellFormed (Mapping ?inner)" by simp
  have c: "checkContainsMap ?outer ?inner" by simp
  have m: "(''baz'', Sequence [Str ''x'', Str ''y'']) \<in> set ?inner" by simp
  note t = checkContainsMap_characterisation [OF w1 w2, where key = "''baz''"
      and ys = "[Str ''x'', Str ''y'']" and obj = ?obj and cv = ?cv and v = "OtherVal ()"]
  from t c m
  have s: "\<exists>xs. map_of ?outer ''baz'' = Some (Sequence xs)
          \<and> length xs = length [Str ''x'', Str ''y'']
          \<and> (\<forall>i < length [Str ''x'', Str ''y'']. deepEqual (xs ! i) ([Str ''x'', Str ''y''] ! i))"
    by blast
  have hv: "Object.value ?obj = Some ?outer" and hc: "?cv (OtherVal ()) = Inr (Mapping ?inner)"
    by simp_all
  from t hv hc c
  have "reporter (Object.chain (Object_ContainsMap ?cv ?obj (OtherVal ()))) =
        reporter (Object.chain ?obj)"
    by blast
  then have r: "reporter (Object.chain (Object_ContainsMap ?cv ?obj (OtherVal ()))) = []"
    by (simp add: makeChain_def)
  let ?o2 = "[(''a'', Sequence [Number 1, Number 2, Number 3])]"
  let ?i2 = "[(''a'', Sequence [Number 1, Number 2])]"
  have w3: "wellFormed (Mapping ?o2)" by simp
  have w4: "wellFormed (Mapping ?i2)" by simp
  have m2: "(''a'', Sequence [Number 1, Number 2]) \<in> set ?i2" by simp
  have no: "\<not> (\<exists>xs. map_of ?o2 ''a'' = Some (Sequence xs) \<and>
              length xs = length [Number 1, Number 2] \<and>
              (\<forall>i < length [Number 1, Number 2]. deepEqual (xs ! i) ([Number 1, Number 2] ! i)))"
    by auto
  from checkContainsMap_characterisation [OF w3 w4, where key = "''a''"
      and ys = "[Number 1, Number 2]"] m2 no
  have n: "\<not> checkContainsMap ?o2 ?i2" by blast
  show ?thesis by (intro conjI) (rule w1 w2 c s r w3 w4 n)+
qed

text \<open>
  C2. Containment is reflexive on a Go map (canonical, keys distinct), and deleting a key
  from \<open>inner\<close> keeps a containment that holds.
\<close>

theorem checkContainsMap_reflexive_monotonic:
  "(wellFormed (Mapping X) \<longrightarrow> checkContainsMap X X) \<and>
   (checkContainsMap outer inner \<longrightarrow> checkContainsMap outer (removeKey key inner))"
  using checkContainsMap_refl_aux [of "Mapping X" X] checkContainsMap_removeKey [of outer inner key]
  by simp

theorem checkContainsMap_reflexive_monotonic_witness:
  "wellFormed (Mapping [(''a'', Number 1), (''b'', Mapping [(''c'', Null)])])
   \<and> checkContainsMap [(''a'', Number 1), (''b'', Mapping [(''c'', Null)])]
                       [(''a'', Number 1), (''b'', Mapping [(''c'', Null)])]
   \<and> checkContainsMap [(''a'', Number 1), (''b'', Mapping [(''c'', Null)])]
                       (removeKey ''a'' [(''a'', Number 1), (''b'', Mapping [(''c'', Null)])])
   \<and> removeKey ''a'' [(''a'', Number 1), (''b'', Mapping [(''c'', Null)])] = [(''b'', Mapping [(''c'', Null)])]"
proof -
  let ?X = "[(''a'', Number 1), (''b'', Mapping [(''c'', Null)])]"
  have w: "wellFormed (Mapping ?X)" by simp
  from checkContainsMap_reflexive_monotonic [of ?X ?X ?X "''a''"] w
  have "checkContainsMap ?X ?X \<and> checkContainsMap ?X (removeKey ''a'' ?X)" by blast
  moreover have "removeKey ''a'' ?X = [(''b'', Mapping [(''c'', Null)])]"
    by (simp add: removeKey_def)
  ultimately show ?thesis using w by blast
qed

section \<open>Properties of the Object assertions\<close>

lemma containsKey_loop_iff: "containsKey_loop m key \<longleftrightarrow> key \<in> fst ` set m"
  by (induction m key rule: containsKey_loop.induct) auto

lemma containsKey_iff: "containsKey obj key \<longleftrightarrow> key \<in> fst ` set (entries (Object.value obj))"
  by (simp add: containsKey_def containsKey_loop_iff)

lemma chain_failed_chain_fail: "chain_failed (chain_fail c f)"
  by (simp add: chain_failed_def chain_fail_def)

text \<open>
  C3. When the key is missing from the object, \<open>ValueEqual\<close> and \<open>ValueNotEqual\<close> leave
  the object as \<open>ContainsKey\<close> leaves it: the reporter has been handed exactly one more
  failure, the key failure of \<open>ContainsKey\<close>, the chain has failed, and nothing about an
  equality or inequality comparison is recorded.
\<close>

theorem ValueEqual_missing_key:
  assumes "key \<notin> fst ` set (entries (Object.value obj))"
  shows "Object_ValueEqual cv obj key v = Object_ContainsKey obj key
       \<and> Object_ValueNotEqual cv obj key v = Object_ContainsKey obj key
       \<and> reporter (Object.chain (Object_ValueEqual cv obj key v)) =
           reporter (Object.chain obj) @
             [\<lparr>assertionName = ''Object.ContainsKey'', assertType = failureAssertKey,
               expected = OfString key, actual = OfMap (Object.value obj), err = None\<rparr>]
       \<and> reporter (Object.chain (Object_ValueNotEqual cv obj key v)) =
           reporter (Object.chain obj) @
             [\<lparr>assertionName = ''Object.ContainsKey'', assertType = failureAssertKey,
               expected = OfString key, actual = OfMap (Object.value obj), err = None\<rparr>]
       \<and> chain_failed (Object.chain (Object_ValueEqual cv obj key v))
       \<and> chain_failed (Object.chain (Object_ValueNotEqual cv obj key v))"
proof -
  from assms have nk: "\<not> containsKey obj key" by (simp add: containsKey_iff)
  have ck: "Object_ContainsKey obj key =
     obj\<lparr>Object.chain := chain_fail (Object.chain obj)
        \<lparr>assertionName = ''Object.ContainsKey'', assertType = failureAssertKey,
         expected = OfString key, actual = OfMap (Object.value obj), err = None\<rparr>\<rparr>"
    using nk by (simp add: Object_ContainsKey_def)
  have f: "chain_failed (Object.chain (Object_ContainsKey obj key))"
    unfolding ck by (simp add: chain_failed_chain_fail)
  have e1: "Object_ValueEqual cv obj key v = Object_ContainsKey obj key"
    using f by (simp add: Object_ValueEqual_def Let_def)
  have e2: "Object_ValueNotEqual cv obj key v = Object_ContainsKey obj key"
    using f by (simp add: Object_ValueNotEqual_def Let_def)
  have r: "reporter (Object.chain (Object_ContainsKey obj key)) =
           reporter (Object.chain obj) @
             [\<lparr>assertionName = ''Object.ContainsKey'', assertType = failureAssertKey,
               expected = OfString key, actual = OfMap (Object.value obj), err = None\<rparr>]"
    unfolding ck by (simp add: reporter_chain_fail)
  show ?thesis using e1 e2 r f by simp
qed

theorem ValueEqual_missing_key_witness:
  "''bar'' \<notin> fst ` set (entries (Object.value
       \<lparr>Object.chain = makeChain ([] :: unit Reporter),
        Object.value = Some [(''foo'', Number 123)]\<rparr>))
   \<and> reporter (Object.chain (Object_ValueEqual (\<lambda>v. Inr (Str ''x''))
       \<lparr>Object.chain = makeChain ([] :: unit Reporter),
        Object.value = Some [(''foo'', Number 123)]\<rparr> ''bar'' (OtherVal ()))) =
       [\<lparr>assertionName = ''Object.ContainsKey'', assertType = failureAssertKey,
         expected = OfString ''bar'', actual = OfMap (Some [(''foo'', Number 123)]),
         err = None\<rparr>]
   \<and> reporter (Object.chain (Object_ValueNotEqual (\<lambda>v. Inr (Str ''x''))
       \<lparr>Object.chain = makeChain ([] :: unit Reporter),
        Object.value = Some [(''foo'', Number 123)]\<rparr> ''bar'' (OtherVal ()))) =
       [\<lparr>assertionName = ''Object.ContainsKey'', assertType = failureAssertKey,
         expected = OfString ''bar'', actual = OfMap (Some [(''foo'', Number 123)]),
         err = None\<rparr>]"
proof -
  let ?obj = "\<lparr>Object.chain = makeChain ([] :: unit Reporter),
               Object.value = Some [(''foo'', Number 123)]\<rparr>"
  have h: "''bar'' \<notin> fst ` set (entries (Object.value ?obj))" by simp
  note t = ValueEqual_missing_key [OF h, of "\<lambda>v. Inr (Str ''x'')" "OtherVal ()"]
  from t have a: "reporter (Object.chain (Object_ValueEqual (\<lambda>v. Inr (Str ''x'')) ?obj ''bar'' (OtherVal ()))) =
           reporter (Object.chain ?obj) @
             [\<lparr>assertionName = ''Object.ContainsKey'', assertType = failureAssertKey,
               expected = OfString ''bar'', actual = OfMap (Object.value ?obj), err = None\<rparr>]"
    by blast
  from t have b: "reporter (Object.chain (Object_ValueNotEqual (\<lambda>v. Inr (Str ''x'')) ?obj ''bar'' (OtherVal ()))) =
           reporter (Object.chain ?obj) @
             [\<lparr>assertionName = ''Object.ContainsKey'', assertType = failureAssertKey,
               expected = OfString ''bar'', actual = OfMap (Object.value ?obj), err = None\<rparr>]"
    by blast
  show ?thesis using h a b by (simp add: makeChain_def)
qed

text \<open>
  C9. When the chain has already failed, \<open>ValueEqual\<close> and \<open>ValueNotEqual\<close> do what
  \<open>ContainsKey\<close> does and nothing more: with the key present the object is returned as
  it was, whatever the stored and the given value are; with the key missing the only
  failure recorded is the key failure.
\<close>

theorem ValueEqual_after_failure:
  assumes "chain_failed (Object.chain obj)"
  shows "Object_ValueEqual cv obj key v = Object_ContainsKey obj key
       \<and> Object_ValueNotEqual cv obj key v = Object_ContainsKey obj key
       \<and> (key \<in> fst ` set (entries (Object.value obj)) \<longrightarrow>
            Object_ValueEqual cv obj key v = obj \<and> Object_ValueNotEqual cv obj key v = obj)
       \<and> (key \<notin> fst ` set (entries (Object.value obj)) \<longrightarrow>
            reporter (Object.chain (Object_ContainsKey obj key)) =
              reporter (Object.chain obj) @
                [\<lparr>assertionName = ''Object.ContainsKey'', assertType = failureAssertKey,
                  expected = OfString key, actual = OfMap (Object.value obj), err = None\<rparr>])"
proof -
  have f: "chain_failed (Object.chain (Object_ContainsKey obj key))"
    using assms by (simp add: Object_ContainsKey_def chain_failed_chain_fail)
  have e1: "Object_ValueEqual cv obj key v = Object_ContainsKey obj key"
    using f by (simp add: Object_ValueEqual_def Let_def)
  have e2: "Object_ValueNotEqual cv obj key v = Object_ContainsKey obj key"
    using f by (simp add: Object_ValueNotEqual_def Let_def)
  have p: "key \<in> fst ` set (entries (Object.value obj)) \<longrightarrow> Object_ContainsKey obj key = obj"
    by (simp add: Object_ContainsKey_def containsKey_iff)
  have q: "key \<notin> fst ` set (entries (Object.value obj)) \<longrightarrow>
            reporter (Object.chain (Object_ContainsKey obj key)) =
              reporter (Object.chain obj) @
                [\<lparr>assertionName = ''Object.ContainsKey'', assertType = failureAssertKey,
                  expected = OfString key, actual = OfMap (Object.value obj), err = None\<rparr>]"
    by (simp add: Object_ContainsKey_def containsKey_iff reporter_chain_fail)
  show ?thesis using e1 e2 p q by simp
qed

theorem ValueEqual_after_failure_witness:
  "chain_failed (Object.chain
       \<lparr>Object.chain = \<lparr>failbit = True, reporter = ([] :: unit Reporter)\<rparr>,
        Object.value = Some [(''foo'', Number 123)]\<rparr>)
   \<and> \<not> deepEqual (Number 456) (mapIndex (Some [(''foo'', Number 123)]) ''foo'')
   \<and> Object_ValueEqual (\<lambda>v. Inr (Number 456))
       \<lparr>Object.chain = \<lparr>failbit = True, reporter = ([] :: unit Reporter)\<rparr>,
        Object.value = Some [(''foo'', Number 123)]\<rparr> ''foo'' (OtherVal ()) =
       \<lparr>Object.chain = \<lparr>failbit = True, reporter = ([] :: unit Reporter)\<rparr>,
        Object.value = Some [(''foo'', Number 123)]\<rparr>
   \<and> deepEqual (Number 123) (mapIndex (Some [(''foo'', Number 123)]) ''foo'')
   \<and> Object_ValueNotEqual (\<lambda>v. Inr (Number 123))
       \<lparr>Object.chain = \<lparr>failbit = True, reporter = ([] :: unit Reporter)\<rparr>,
        Object.value = Some [(''foo'', Number 123)]\<rparr> ''foo'' (OtherVal ()) =
       \<lparr>Object.chain = \<lparr>failbit = True, reporter = ([] :: unit Reporter)\<rparr>,
        Object.value = Some [(''foo'', Number 123)]\<rparr>"
proof -
  let ?obj = "\<lparr>Object.chain = \<lparr>failbit = True, reporter = ([] :: unit Reporter)\<rparr>,
               Object.value = Some [(''foo'', Number 123)]\<rparr>"
  have h: "chain_failed (Object.chain ?obj)" by (simp add: chain_failed_def)
  have k: "''foo'' \<in> fst ` set (entries (Object.value ?obj))" by simp
  from ValueEqual_after_failure [OF h, of "\<lambda>v. Inr (Number 456)" "''foo''" "OtherVal ()"] k
  have a: "Object_ValueEqual (\<lambda>v. Inr (Number 456)) ?obj ''foo'' (OtherVal ()) = ?obj" by blast
  from ValueEqual_after_failure [OF h, of "\<lambda>v. Inr (Number 123)" "''foo''" "OtherVal ()"] k
  have b: "Object_ValueNotEqual (\<lambda>v. Inr (Number 123)) ?obj ''foo'' (OtherVal ()) = ?obj" by blast
  have c: "\<not> deepEqual (Number 456) (mapIndex (Some [(''foo'', Number 123)]) ''foo'')"
    by (simp add: mapIndex_def)
  have d: "deepEqual (Number 123) (mapIndex (Some [(''foo'', Number 123)]) ''foo'')"
    by (simp add: mapIndex_def)
  show ?thesis using h a b c d by blast
qed

section \<open>Properties of Match\<close>

text \<open>
  C4. \<open>Match.Index\<close> with an index in range returns the submatch at that index on the
  receiver's chain and records nothing; with any other index the reporter is handed
  exactly one out-of-bounds failure, whose expected field is the index and whose actual
  field is the number of submatches, and the wrapper returned holds the empty string on
  the receiver's (now failed) chain.
\<close>

theorem Match_Index_bounds:
  "(0 \<le> i \<and> i < int (length (submatches m)) \<longrightarrow>
      Match_Index m i =
        (m, \<lparr>String.chain = Match.chain m, String.value = submatches m ! nat i\<rparr>))
   \<and> (\<not> (0 \<le> i \<and> i < int (length (submatches m))) \<longrightarrow>
        reporter (Match.chain (fst (Match_Index m i))) =
          reporter (Match.chain m) @
            [\<lparr>assertionName = ''Match.Index'', assertType = failureAssertOutOfBounds,
              expected = OfInt i, actual = OfInt (int (length (submatches m))), err = None\<rparr>]
        \<and> chain_failed (Match.chain (fst (Match_Index m i)))
        \<and> String.value (snd (Match_Index m i)) = []
        \<and> String.chain (snd (Match_Index m i)) = Match.chain (fst (Match_Index m i))
        \<and> submatches (fst (Match_Index m i)) = submatches m
        \<and> names (fst (Match_Index m i)) = names m)"
  by (auto simp: Match_Index_def Let_def reporter_chain_fail chain_failed_chain_fail)

theorem Match_Index_bounds_witness:
  "(0::int) \<le> 1 \<and> (1::int) < int (length (submatches (makeMatch (makeChain ([] :: unit Reporter)) (Some [''a'', ''b'']) [])))
   \<and> snd (Match_Index (makeMatch (makeChain ([] :: unit Reporter)) (Some [''a'', ''b'']) []) 1) =
       \<lparr>String.chain = makeChain [], String.value = ''b''\<rparr>
   \<and> \<not> (0 \<le> (2::int) \<and> (2::int) < int (length (submatches (makeMatch (makeChain ([] :: unit Reporter)) (Some [''a'', ''b'']) []))))
   \<and> reporter (Match.chain (fst (Match_Index (makeMatch (makeChain ([] :: unit Reporter)) (Some [''a'', ''b'']) []) 2))) =
       [\<lparr>assertionName = ''Match.Index'', assertType = failureAssertOutOfBounds,
         expected = OfInt 2, actual = OfInt 2, err = None\<rparr>]
   \<and> String.value (snd (Match_Index (makeMatch (makeChain ([] :: unit Reporter)) (Some [''a'', ''b'']) []) 2)) = []"
proof -
  let ?m = "makeMatch (makeChain ([] :: unit Reporter)) (Some [''a'', ''b'']) []"
  have s: "submatches ?m = [''a'', ''b'']" and c: "Match.chain ?m = makeChain []"
    by (simp_all add: makeMatch_def)
  have cr: "reporter (Match.chain ?m) = []"
    by (simp add: makeMatch_def makeChain_def)
  have h1: "(0::int) \<le> 1 \<and> (1::int) < int (length (submatches ?m))" by (simp add: s)
  have h2: "\<not> (0 \<le> (2::int) \<and> (2::int) < int (length (submatches ?m)))" by (simp add: s)
  from Match_Index_bounds [of 1 ?m] h1
  have a: "Match_Index ?m 1 =
        (?m, \<lparr>String.chain = Match.chain ?m, String.value = submatches ?m ! nat 1\<rparr>)"
    by blast
  have a': "snd (Match_Index ?m 1) = \<lparr>String.chain = makeChain [], String.value = ''b''\<rparr>"
    unfolding a by (simp add: s c)
  from Match_Index_bounds [of 2 ?m] h2
  have b: "reporter (Match.chain (fst (Match_Index ?m 2))) =
          reporter (Match.chain ?m) @
            [\<lparr>assertionName = ''Match.Index'', assertType = failureAssertOutOfBounds,
              expected = OfInt 2, actual = OfInt (int (length (submatches ?m))), err = None\<rparr>]"
    and b2: "String.value (snd (Match_Index ?m 2)) = []"
    by blast+
  have b': "reporter (Match.chain (fst (Match_Index ?m 2))) =
       [\<lparr>assertionName = ''Match.Index'', assertType = failureAssertOutOfBounds,
         expected = OfInt 2, actual = OfInt 2, err = None\<rparr>]"
    unfolding b by (simp add: s cr)
  show ?thesis using h1 h2 a' b' b2 by blast
qed

lemma getValues_drop: "getValues m = drop 1 (submatches m)"
  by (simp add: getValues_def)

text \<open>
  C6. \<open>Values\<close> and \<open>NotValues\<close> compare the arguments with the submatches from index 1
  on: \<open>Values\<close> records nothing exactly when the two lists are equal and otherwise one
  failure of the equal kind, \<open>NotValues\<close> records one failure of the not-equal kind
  exactly when they are equal. For the submatches \<^verbatim>\<open>["http://x/users/y", "x", "y"]\<close>,
  \<open>Values("x", "y")\<close> records nothing and \<open>Values("x")\<close> records a failure of the equal kind.
\<close>

theorem Match_Values_from_index_1:
  "getValues m = drop 1 (submatches m)
   \<and> Match_Values m (Some vs) =
       (if vs = drop 1 (submatches m) then m
        else m\<lparr>Match.chain := chain_fail (Match.chain m)
               \<lparr>assertionName = ''Match.Values'', assertType = failureAssertEqual,
                expected = OfStrings vs, actual = OfStrings (drop 1 (submatches m)),
                err = None\<rparr>\<rparr>)
   \<and> Match_NotValues m (Some vs) =
       (if vs = drop 1 (submatches m) then
          m\<lparr>Match.chain := chain_fail (Match.chain m)
               \<lparr>assertionName = ''Match.NotValues'', assertType = failureAssertNotEqual,
                expected = OfStrings vs, actual = Unset, err = None\<rparr>\<rparr>
        else m)
   \<and> Match_Values m None = Match_Values m (Some [])
   \<and> Match_NotValues m None = Match_NotValues m (Some [])
   \<and> (submatches m = [''http://x/users/y'', ''x'', ''y''] \<longrightarrow>
        Match_Values m (Some [''x'', ''y'']) = m
        \<and> reporter (Match.chain (Match_Values m (Some [''x'']))) =
            reporter (Match.chain m) @
              [\<lparr>assertionName = ''Match.Values'', assertType = failureAssertEqual,
                expected = OfStrings [''x''], actual = OfStrings [''x'', ''y''], err = None\<rparr>])"
  by (simp add: Match_Values_def Match_NotValues_def getValues_drop reporter_chain_fail)

theorem Match_Values_from_index_1_witness:
  "submatches (makeMatch (makeChain ([] :: unit Reporter)) (Some [''http://x/users/y'', ''x'', ''y'']) []) =
     [''http://x/users/y'', ''x'', ''y'']
   \<and> reporter (Match.chain (Match_Values
        (makeMatch (makeChain ([] :: unit Reporter)) (Some [''http://x/users/y'', ''x'', ''y'']) [])
        (Some [''x'', ''y'']))) = []
   \<and> reporter (Match.chain (Match_Values
        (makeMatch (makeChain ([] :: unit Reporter)) (Some [''http://x/users/y'', ''x'', ''y'']) [])
        (Some [''x'']))) =
       [\<lparr>assertionName = ''Match.Values'', assertType = failureAssertEqual,
         expected = OfStrings [''x''], actual = OfStrings [''x'', ''y''], err = None\<rparr>]"
proof -
  let ?m = "makeMatch (makeChain ([] :: unit Reporter)) (Some [''http://x/users/y'', ''x'', ''y'']) []"
  have s: "submatches ?m = [''http://x/users/y'', ''x'', ''y'']"
    and c: "reporter (Match.chain ?m) = []"
    by (simp_all add: makeMatch_def makeChain_def)
  from Match_Values_from_index_1 [of ?m] s
  have a: "Match_Values ?m (Some [''x'', ''y'']) = ?m"
    and b: "reporter (Match.chain (Match_Values ?m (Some [''x'']))) =
            reporter (Match.chain ?m) @
              [\<lparr>assertionName = ''Match.Values'', assertType = failureAssertEqual,
                expected = OfStrings [''x''], actual = OfStrings [''x'', ''y''], err = None\<rparr>]"
    by blast+
  have a': "reporter (Match.chain (Match_Values ?m (Some [''x'', ''y'']))) = []"
    unfolding a by (rule c)
  have b': "reporter (Match.chain (Match_Values ?m (Some [''x'']))) =
       [\<lparr>assertionName = ''Match.Values'', assertType = failureAssertEqual,
         expected = OfStrings [''x''], actual = OfStrings [''x'', ''y''], err = None\<rparr>]"
    unfolding b c by simp
  show ?thesis using s a' b' by blast
qed

lemma namemap_loop_snoc:
  "namemap_loop n (ns @ [x]) mp =
     (if x \<noteq> [] then (namemap_loop n ns mp)(x \<mapsto> n + int (length ns))
      else namemap_loop n ns mp)"
  by (induction ns arbitrary: n mp) (simp_all add: algebra_simps)

lemma namemap_loop_last_wins:
  "namemap_loop 0 ns Map.empty name = Some i \<longleftrightarrow>
     name \<noteq> [] \<and> 0 \<le> i \<and> nat i < length ns \<and> ns ! nat i = name \<and>
     (\<forall>j. nat i < j \<and> j < length ns \<longrightarrow> ns ! j \<noteq> name)"
proof (induction ns arbitrary: i rule: rev_induct)
  case Nil
  show ?case by simp
next
  case (snoc x ns)
  show ?case
  proof (cases "x = name \<and> name \<noteq> []")
    case True
    then have l: "namemap_loop 0 (ns @ [x]) Map.empty name = Some (int (length ns))"
      by (simp add: namemap_loop_snoc)
    show ?thesis
    proof
      assume "namemap_loop 0 (ns @ [x]) Map.empty name = Some i"
      with l have "i = int (length ns)" by simp
      with True show "name \<noteq> [] \<and> 0 \<le> i \<and> nat i < length (ns @ [x]) \<and> (ns @ [x]) ! nat i = name \<and>
         (\<forall>j. nat i < j \<and> j < length (ns @ [x]) \<longrightarrow> (ns @ [x]) ! j \<noteq> name)"
        by auto
    next
      assume r: "name \<noteq> [] \<and> 0 \<le> i \<and> nat i < length (ns @ [x]) \<and> (ns @ [x]) ! nat i = name \<and>
         (\<forall>j. nat i < j \<and> j < length (ns @ [x]) \<longrightarrow> (ns @ [x]) ! j \<noteq> name)"
      have "\<not> nat i < length ns"
      proof
        assume "nat i < length ns"
        moreover from r have "nat i < length ns \<and> length ns < length (ns @ [x]) \<longrightarrow>
            (ns @ [x]) ! length ns \<noteq> name" by blast
        ultimately have "(ns @ [x]) ! length ns \<noteq> name" by simp
        with True show False by simp
      qed
      with r have "nat i = length ns" by simp
      moreover from r have "0 \<le> i" by blast
      ultimately have "i = int (length ns)" by linarith
      with l show "namemap_loop 0 (ns @ [x]) Map.empty name = Some i" by simp
    qed
  next
    case False
    then have l: "namemap_loop 0 (ns @ [x]) Map.empty name = namemap_loop 0 ns Map.empty name"
      by (auto simp: namemap_loop_snoc)
    have "(name \<noteq> [] \<and> 0 \<le> i \<and> nat i < length (ns @ [x]) \<and> (ns @ [x]) ! nat i = name \<and>
         (\<forall>j. nat i < j \<and> j < length (ns @ [x]) \<longrightarrow> (ns @ [x]) ! j \<noteq> name)) \<longleftrightarrow>
       (name \<noteq> [] \<and> 0 \<le> i \<and> nat i < length ns \<and> ns ! nat i = name \<and>
         (\<forall>j. nat i < j \<and> j < length ns \<longrightarrow> ns ! j \<noteq> name))"
      (is "?L \<longleftrightarrow> ?R")
    proof
      assume L: ?L
      with False have ne: "nat i \<noteq> length ns" by (auto simp: nth_append)
      with L have lt: "nat i < length ns" by simp
      have "\<forall>j. nat i < j \<and> j < length ns \<longrightarrow> ns ! j \<noteq> name"
      proof (intro allI impI)
        fix j assume j: "nat i < j \<and> j < length ns"
        with L have "(ns @ [x]) ! j \<noteq> name" by simp
        with j show "ns ! j \<noteq> name" by (simp add: nth_append)
      qed
      with L lt show ?R by (simp add: nth_append)
    next
      assume R: ?R
      have "\<forall>j. nat i < j \<and> j < length (ns @ [x]) \<longrightarrow> (ns @ [x]) ! j \<noteq> name"
      proof (intro allI impI)
        fix j assume j: "nat i < j \<and> j < length (ns @ [x])"
        show "(ns @ [x]) ! j \<noteq> name"
        proof (cases "j < length ns")
          case True
          with R j show ?thesis by (simp add: nth_append)
        next
          case False
          with j have "j = length ns" by simp
          with \<open>\<not> (x = name \<and> name \<noteq> [])\<close> R show ?thesis by simp
        qed
      qed
      with R show ?L by (simp add: nth_append)
    qed
    with l snoc.IH [of i] show ?thesis by simp
  qed
qed


text \<open>
  C5 (as amended). The name table is built once by \<open>makeMatch\<close>: a name is in the table
  exactly when it is non-empty and occurs among the names, and it is mapped to the index
  of its last occurrence. For a name in the table \<open>Match.Name\<close> is \<open>Match.Index\<close> at the
  mapped index, so the result is the submatch at that index when the index is within
  the submatches (and an out-of-bounds failure otherwise). For a name not in the table
  the reporter is handed exactly one failure, with the name table as expected and the
  name as actual, and an empty-string wrapper on the failed chain is returned at once.
\<close>

theorem Match_Name_lookup:
  "(names (makeMatch c subs ns) name = Some i \<longleftrightarrow>
      name \<noteq> [] \<and> 0 \<le> i \<and> nat i < length ns \<and> ns ! nat i = name \<and>
      (\<forall>j. nat i < j \<and> j < length ns \<longrightarrow> ns ! j \<noteq> name))
   \<and> (names m name = Some i \<longrightarrow> Match_Name m name = Match_Index m i)
   \<and> (names m name = Some i \<and> 0 \<le> i \<and> i < int (length (submatches m)) \<longrightarrow>
        Match_Name m name =
          (m, \<lparr>String.chain = Match.chain m, String.value = submatches m ! nat i\<rparr>))
   \<and> (names m name = None \<longrightarrow>
        reporter (Match.chain (fst (Match_Name m name))) =
          reporter (Match.chain m) @
            [\<lparr>assertionName = ''Match.Name'', assertType = failureAssertMatchRe,
              expected = OfNames (names m), actual = OfString name, err = None\<rparr>]
        \<and> chain_failed (Match.chain (fst (Match_Name m name)))
        \<and> String.value (snd (Match_Name m name)) = []
        \<and> String.chain (snd (Match_Name m name)) = Match.chain (fst (Match_Name m name))
        \<and> submatches (fst (Match_Name m name)) = submatches m
        \<and> names (fst (Match_Name m name)) = names m)"
proof (intro conjI)
  show "names (makeMatch c subs ns) name = Some i \<longleftrightarrow>
      name \<noteq> [] \<and> 0 \<le> i \<and> nat i < length ns \<and> ns ! nat i = name \<and>
      (\<forall>j. nat i < j \<and> j < length ns \<longrightarrow> ns ! j \<noteq> name)"
    using namemap_loop_last_wins [of ns name i] by (simp add: makeMatch_def)
next
  show "names m name = Some i \<longrightarrow> Match_Name m name = Match_Index m i"
    by (simp add: Match_Name_def)
next
  show "names m name = Some i \<and> 0 \<le> i \<and> i < int (length (submatches m)) \<longrightarrow>
        Match_Name m name =
          (m, \<lparr>String.chain = Match.chain m, String.value = submatches m ! nat i\<rparr>)"
    by (simp add: Match_Name_def Match_Index_def)
next
  show "names m name = None \<longrightarrow>
        reporter (Match.chain (fst (Match_Name m name))) =
          reporter (Match.chain m) @
            [\<lparr>assertionName = ''Match.Name'', assertType = failureAssertMatchRe,
              expected = OfNames (names m), actual = OfString name, err = None\<rparr>]
        \<and> chain_failed (Match.chain (fst (Match_Name m name)))
        \<and> String.value (snd (Match_Name m name)) = []
        \<and> String.chain (snd (Match_Name m name)) = Match.chain (fst (Match_Name m name))
        \<and> submatches (fst (Match_Name m name)) = submatches m
        \<and> names (fst (Match_Name m name)) = names m"
    by (simp add: Match_Name_def Let_def reporter_chain_fail chain_failed_chain_fail)
qed

theorem Match_Name_lookup_witness:
  "names (makeMatch (makeChain ([] :: unit Reporter))
            (Some [''whole'', ''example.com'', ''john'']) ['''', ''host'', ''user'']) ''host'' = Some 1
   \<and> (0::int) \<le> 1
   \<and> (1::int) < int (length (submatches (makeMatch (makeChain ([] :: unit Reporter))
            (Some [''whole'', ''example.com'', ''john'']) ['''', ''host'', ''user''])))
   \<and> String.value (snd (Match_Name (makeMatch (makeChain ([] :: unit Reporter))
            (Some [''whole'', ''example.com'', ''john'']) ['''', ''host'', ''user'']) ''host'')) =
       ''example.com''
   \<and> names (makeMatch (makeChain ([] :: unit Reporter))
            (Some [''whole'', ''example.com'', ''john'']) ['''', ''host'', ''user'']) ''missing'' = None
   \<and> String.value (snd (Match_Name (makeMatch (makeChain ([] :: unit Reporter))
            (Some [''whole'', ''example.com'', ''john'']) ['''', ''host'', ''user'']) ''missing'')) = []
   \<and> map assertType (reporter (Match.chain (fst (Match_Name (makeMatch (makeChain ([] :: unit Reporter))
            (Some [''whole'', ''example.com'', ''john'']) ['''', ''host'', ''user'']) ''missing'')))) =
       [failureAssertMatchRe]
   \<and> names (makeMatch (makeChain ([] :: unit Reporter)) None [''a'', ''b'', ''a'']) ''a'' = Some 2"
proof -
  let ?m = "makeMatch (makeChain ([] :: unit Reporter))
              (Some [''whole'', ''example.com'', ''john'']) ['''', ''host'', ''user'']"
  have s: "submatches ?m = [''whole'', ''example.com'', ''john'']"
    and cr: "reporter (Match.chain ?m) = []"
    by (simp_all add: makeMatch_def makeChain_def)
  have n1: "names ?m ''host'' = Some 1" by (simp add: makeMatch_def)
  have n2: "names ?m ''missing'' = None" by (simp add: makeMatch_def)
  have h: "(0::int) \<le> 1" "(1::int) < int (length (submatches ?m))" by (simp_all add: s)
  from Match_Name_lookup [where m = ?m and name = "''host''" and i = 1] n1 h
  have a: "Match_Name ?m ''host'' =
          (?m, \<lparr>String.chain = Match.chain ?m, String.value = submatches ?m ! nat 1\<rparr>)"
    by blast
  have a': "String.value (snd (Match_Name ?m ''host'')) = ''example.com''"
    unfolding a by (simp add: s)
  from Match_Name_lookup [where m = ?m and name = "''missing''"] n2
  have b: "reporter (Match.chain (fst (Match_Name ?m ''missing''))) =
          reporter (Match.chain ?m) @
            [\<lparr>assertionName = ''Match.Name'', assertType = failureAssertMatchRe,
              expected = OfNames (names ?m), actual = OfString ''missing'', err = None\<rparr>]"
    and b2: "String.value (snd (Match_Name ?m ''missing'')) = []"
    by blast+
  have b': "map assertType (reporter (Match.chain (fst (Match_Name ?m ''missing'')))) =
       [failureAssertMatchRe]"
    unfolding b cr by simp
  have "(2::int) \<ge> 0 \<and> nat 2 < length [''a'', ''b'', ''a''] \<and> [''a'', ''b'', ''a''] ! nat 2 = ''a''
        \<and> (\<forall>j. nat 2 < j \<and> j < length [''a'', ''b'', ''a''] \<longrightarrow> [''a'', ''b'', ''a''] ! j \<noteq> ''a'')"
    by simp
  with Match_Name_lookup [where c = "makeChain ([] :: unit Reporter)" and subs = None
      and ns = "[''a'', ''b'', ''a'']" and name = "''a''" and i = 2, THEN conjunct1]
  have l: "names (makeMatch (makeChain ([] :: unit Reporter)) None [''a'', ''b'', ''a'']) ''a'' = Some 2"
    by simp
  show ?thesis using n1 h a' n2 b2 b' l by blast
qed

theorem Match_Name_counterexample:
  "names (makeMatch (makeChain ([] :: unit Reporter)) None ['''', ''host'']) ''host'' = Some 1
   \<and> submatches (makeMatch (makeChain ([] :: unit Reporter)) None ['''', ''host'']) = []
   \<and> String.value (snd (Match_Name
        (makeMatch (makeChain ([] :: unit Reporter)) None ['''', ''host'']) ''host'')) = []
   \<and> reporter (String.chain (snd (Match_Name
        (makeMatch (makeChain ([] :: unit Reporter)) None ['''', ''host'']) ''host''))) =
       [\<lparr>assertionName = ''Match.Index'', assertType = failureAssertOutOfBounds,
         expected = OfInt 1, actual = OfInt 0, err = None\<rparr>]
   \<and> names (makeMatch (makeChain ([] :: unit Reporter)) (Some [''whole'']) []) ''x'' = None
   \<and> String.value (snd (Match_Name
        (makeMatch (makeChain ([] :: unit Reporter)) (Some [''whole'']) []) ''x'')) = []
   \<and> String.value (snd (Match_Index (fst (Match_Name
        (makeMatch (makeChain ([] :: unit Reporter)) (Some [''whole'']) []) ''x'')) 0)) = ''whole''"
  by (simp add: makeMatch_def makeChain_def Match_Name_def Match_Index_def Let_def
      chain_fail_def)

section \<open>Constructors, frame and the empty-map assertions\<close>

lemma canonMap_failure:
  assumes "\<forall>m. cv v \<noteq> Inr (Mapping m)"
  shows "\<exists>f. canonMap cv c v = (chain_fail c f, None, False) \<and> assertType f = failureInvalidInput"
proof (cases "cv v")
  case (Inl e)
  show ?thesis
    by (rule exI [of _ "\<lparr>assertionName = [], assertType = failureInvalidInput,
                      expected = Unset, actual = Unset, err = Some e\<rparr>"])
       (simp add: canonMap_def canonValue_def Inl)
next
  case (Inr u)
  with assms have u: "asMap u = None" by (cases u) auto
  show ?thesis
    by (rule exI [of _ "\<lparr>assertionName = [], assertType = failureInvalidInput,
                      expected = Unset, actual = Unset, err = None\<rparr>"])
       (simp add: canonMap_def canonValue_def Inr u)
qed

text \<open>
  C7. \<open>NewMatch\<close> returns a wrapper on a fresh chain that has not failed and has reported
  nothing. \<open>NewObject\<close> with a map that canonicalizes to a mapping returns a wrapper of
  that mapping on such a chain. \<open>NewObject\<close> with the \<^verbatim>\<open>nil\<close> map, or with a map that does
  not canonicalize, still returns a wrapper; its chain has failed and the reporter has
  been handed exactly one failure, of kind invalid-input.
\<close>

theorem constructors_fresh_chain:
  "\<not> chain_failed (Match.chain (NewMatch r subs ns))
   \<and> reporter (Match.chain (NewMatch r subs ns)) = r
   \<and> chain_failed (Object.chain (NewObject r cv None))
   \<and> reporter (Object.chain (NewObject r cv None)) =
       r @ [\<lparr>assertionName = [], assertType = failureInvalidInput, expected = Unset,
              actual = Unset, err = Some ''expected non-nil map value''\<rparr>]
   \<and> Object.value (NewObject r cv None) = None
   \<and> (cv (MapVal (Some kvs)) = Inr (Mapping m) \<longrightarrow>
        NewObject r cv (Some kvs) = \<lparr>Object.chain = makeChain r, Object.value = Some m\<rparr>
        \<and> \<not> chain_failed (Object.chain (NewObject r cv (Some kvs)))
        \<and> reporter (Object.chain (NewObject r cv (Some kvs))) = r)
   \<and> ((\<forall>m. cv (MapVal (Some kvs)) \<noteq> Inr (Mapping m)) \<longrightarrow>
        chain_failed (Object.chain (NewObject r cv (Some kvs)))
        \<and> (\<exists>f. reporter (Object.chain (NewObject r cv (Some kvs))) = r @ [f]
                \<and> assertType f = failureInvalidInput))"
proof (intro conjI impI)
  show "\<not> chain_failed (Match.chain (NewMatch r subs ns))"
    by (simp add: NewMatch_def makeMatch_def makeChain_def chain_failed_def)
  show "reporter (Match.chain (NewMatch r subs ns)) = r"
    by (simp add: NewMatch_def makeMatch_def makeChain_def)
  show "chain_failed (Object.chain (NewObject r cv None))"
    by (simp add: NewObject_def chain_failed_chain_fail)
  show "reporter (Object.chain (NewObject r cv None)) =
       r @ [\<lparr>assertionName = [], assertType = failureInvalidInput, expected = Unset,
              actual = Unset, err = Some ''expected non-nil map value''\<rparr>]"
    by (simp add: NewObject_def reporter_chain_fail makeChain_def)
  show "Object.value (NewObject r cv None) = None"
    by (simp add: NewObject_def)
next
  assume ok: "cv (MapVal (Some kvs)) = Inr (Mapping m)"
  then show e: "NewObject r cv (Some kvs) = \<lparr>Object.chain = makeChain r, Object.value = Some m\<rparr>"
    by (simp add: NewObject_def canonMap_Mapping)
  show "\<not> chain_failed (Object.chain (NewObject r cv (Some kvs)))"
    unfolding e by (simp add: makeChain_def chain_failed_def)
  show "reporter (Object.chain (NewObject r cv (Some kvs))) = r"
    unfolding e by (simp add: makeChain_def)
next
  assume bad: "\<forall>m. cv (MapVal (Some kvs)) \<noteq> Inr (Mapping m)"
  from canonMap_failure [of cv "MapVal (Some kvs)" "makeChain r"] bad obtain f where
    cm: "canonMap cv (makeChain r) (MapVal (Some kvs)) = (chain_fail (makeChain r) f, None, False)"
    and ty: "assertType f = failureInvalidInput" by blast
  have e: "Object.chain (NewObject r cv (Some kvs)) = chain_fail (makeChain r) f"
    by (simp add: NewObject_def cm)
  show "chain_failed (Object.chain (NewObject r cv (Some kvs)))"
    unfolding e by (rule chain_failed_chain_fail)
  have "reporter (Object.chain (NewObject r cv (Some kvs))) = r @ [f]"
    unfolding e by (simp add: reporter_chain_fail makeChain_def)
  with ty show "\<exists>f. reporter (Object.chain (NewObject r cv (Some kvs))) = r @ [f]
                \<and> assertType f = failureInvalidInput" by blast
qed

theorem constructors_fresh_chain_witness:
  "(\<lambda>v. case v of MapVal (Some [(k, OtherVal (Some n))]) \<Rightarrow> Inr (Mapping [(k, Number (real_of_int n))])
                   | _ \<Rightarrow> Inl ''unsupported'') (MapVal (Some [(''foo'', OtherVal (Some 123))])) =
     Inr (Mapping [(''foo'', Number 123)])
   \<and> NewObject [] (\<lambda>v. case v of MapVal (Some [(k, OtherVal (Some n))]) \<Rightarrow> Inr (Mapping [(k, Number (real_of_int n))])
                   | _ \<Rightarrow> Inl ''unsupported'') (Some [(''foo'', OtherVal (Some 123))]) =
       \<lparr>Object.chain = makeChain [], Object.value = Some [(''foo'', Number 123)]\<rparr>
   \<and> (\<forall>m. (\<lambda>v. case v of MapVal (Some [(k, OtherVal (Some n))]) \<Rightarrow> Inr (Mapping [(k, Number (real_of_int n))])
                   | _ \<Rightarrow> Inl ''unsupported'') (MapVal (Some [(''ch'', OtherVal None)])) \<noteq> Inr (Mapping m))
   \<and> chain_failed (Object.chain (NewObject [] (\<lambda>v. case v of MapVal (Some [(k, OtherVal (Some n))]) \<Rightarrow> Inr (Mapping [(k, Number (real_of_int n))])
                   | _ \<Rightarrow> Inl ''unsupported'') (Some [(''ch'', OtherVal None)])))"
proof -
  let ?cv = "\<lambda>v. case v of MapVal (Some [(k, OtherVal (Some n))]) \<Rightarrow> Inr (Mapping [(k, Number (real_of_int n))])
                   | _ \<Rightarrow> Inl ''unsupported''"
  have h1: "?cv (MapVal (Some [(''foo'', OtherVal (Some 123))])) = Inr (Mapping [(''foo'', Number 123)])"
    by simp
  have h2: "\<forall>m. ?cv (MapVal (Some [(''ch'', OtherVal None)])) \<noteq> Inr (Mapping m)" by simp
  note t1 = constructors_fresh_chain [where cv = ?cv and kvs = "[(''foo'', OtherVal (Some 123))]"
      and m = "[(''foo'', Number 123)]" and r = "[]"]
  note t2 = constructors_fresh_chain [where cv = ?cv and kvs = "[(''ch'', OtherVal None)]" and r = "[]"]
  from t1 h1 have a: "NewObject [] ?cv (Some [(''foo'', OtherVal (Some 123))]) =
       \<lparr>Object.chain = makeChain [], Object.value = Some [(''foo'', Number 123)]\<rparr>"
    by blast
  from t2 h2 have b: "chain_failed (Object.chain (NewObject [] ?cv (Some [(''ch'', OtherVal None)])))"
    by blast
  show ?thesis using h1 a h2 b by blast
qed


lemma canonMap_cases:
  obtains (ok) m where "cv v = Inr (Mapping m)" "canonMap cv c v = (c, Some m, True)"
  | (bad) f where "canonMap cv c v = (chain_fail c f, None, False)"
                  "assertType f = failureInvalidInput"
proof (cases "\<exists>m. cv v = Inr (Mapping m)")
  case True
  then obtain m where "cv v = Inr (Mapping m)" by blast
  then show ?thesis using ok canonMap_Mapping by blast
next
  case False
  then have "\<forall>m. cv v \<noteq> Inr (Mapping m)" by blast
  from canonMap_failure [of cv v c] this show ?thesis using bad by blast
qed

lemma value_Object_Equal: "Object.value (Object_Equal cv obj v) = Object.value obj"
  by (simp add: Object_Equal_def split: prod.splits)

lemma value_Object_NotEqual: "Object.value (Object_NotEqual cv obj v) = Object.value obj"
  by (simp add: Object_NotEqual_def split: prod.splits)

lemma value_Object_ContainsKey: "Object.value (Object_ContainsKey obj key) = Object.value obj"
  by (simp add: Object_ContainsKey_def)

lemma value_containsMap: "Object.value (fst (containsMap cv obj v)) = Object.value obj"
  by (simp add: containsMap_def split: prod.splits)

lemma value_Object_ContainsMap: "Object.value (Object_ContainsMap cv obj v) = Object.value obj"
  using value_containsMap [of cv obj v]
  by (cases "containsMap cv obj v") (simp add: Object_ContainsMap_def)

lemma value_Object_NotContainsMap: "Object.value (Object_NotContainsMap cv obj v) = Object.value obj"
  using value_containsMap [of cv obj v]
  by (cases "containsMap cv obj v") (simp add: Object_NotContainsMap_def)

lemma value_Object_ValueEqual: "Object.value (Object_ValueEqual cv obj key v) = Object.value obj"
  by (simp add: Object_ValueEqual_def Let_def value_Object_ContainsKey split: prod.splits)

lemma value_Object_ValueNotEqual: "Object.value (Object_ValueNotEqual cv obj key v) = Object.value obj"
  by (simp add: Object_ValueNotEqual_def Let_def value_Object_ContainsKey split: prod.splits)

text \<open>
  C8. No assertion or navigation method writes the payload: the map of the object a
  method of \<open>Object\<close> leaves behind is the map it found, and the submatches and the name
  table of the match a method of \<open>Match\<close> leaves behind are the ones it found. (\<open>Keys\<close>,
  \<open>Values\<close>, \<open>Raw\<close> and \<open>Length\<close> do not write to the receiver at all; \<open>Path\<close> and \<open>Schema\<close>
  hand the map to helpers defined elsewhere, which appear here as functions of the chain
  and the map that return the chain.)
\<close>

theorem payload_unchanged:
  "Object.value (fst (Object_Path getPath obj path)) = Object.value obj
   \<and> Object.value (Object_Schema checkSchema obj schema) = Object.value obj
   \<and> Object.value (fst (Object_Value obj key)) = Object.value obj
   \<and> Object.value (Object_Empty cv obj) = Object.value obj
   \<and> Object.value (Object_NotEmpty cv obj) = Object.value obj
   \<and> Object.value (Object_Equal cv obj v) = Object.value obj
   \<and> Object.value (Object_NotEqual cv obj v) = Object.value obj
   \<and> Object.value (Object_ContainsKey obj key) = Object.value obj
   \<and> Object.value (Object_NotContainsKey obj key) = Object.value obj
   \<and> Object.value (Object_ContainsMap cv obj v) = Object.value obj
   \<and> Object.value (Object_NotContainsMap cv obj v) = Object.value obj
   \<and> Object.value (Object_ValueEqual cv obj key v) = Object.value obj
   \<and> Object.value (Object_ValueNotEqual cv obj key v) = Object.value obj
   \<and> Object_Raw obj = Object.value obj
   \<and> submatches (fst (Match_Index m i)) = submatches m
   \<and> names (fst (Match_Index m i)) = names m
   \<and> submatches (fst (Match_Name m name)) = submatches m
   \<and> names (fst (Match_Name m name)) = names m
   \<and> submatches (Match_Empty m) = submatches m \<and> names (Match_Empty m) = names m
   \<and> submatches (Match_NotEmpty m) = submatches m \<and> names (Match_NotEmpty m) = names m
   \<and> submatches (Match_Values m vs) = submatches m \<and> names (Match_Values m vs) = names m
   \<and> submatches (Match_NotValues m vs) = submatches m \<and> names (Match_NotValues m vs) = names m
   \<and> Match_Raw m = submatches m"
proof -
  have p: "Object.value (fst (Object_Path getPath obj path)) = Object.value obj"
    by (simp add: Object_Path_def split: prod.splits)
  have s: "Object.value (Object_Schema checkSchema obj schema) = Object.value obj"
    by (simp add: Object_Schema_def)
  have v: "Object.value (fst (Object_Value obj key)) = Object.value obj"
    by (simp add: Object_Value_def Let_def split: option.splits)
  have e: "Object.value (Object_Empty cv obj) = Object.value obj"
    "Object.value (Object_NotEmpty cv obj) = Object.value obj"
    by (simp_all add: Object_Empty_def Object_NotEmpty_def value_Object_Equal value_Object_NotEqual)
  have nk: "Object.value (Object_NotContainsKey obj key) = Object.value obj"
    by (simp add: Object_NotContainsKey_def)
  have r: "Object_Raw obj = Object.value obj" by (simp add: Object_Raw_def)
  have i: "submatches (fst (Match_Index m i)) = submatches m" "names (fst (Match_Index m i)) = names m"
    by (simp_all add: Match_Index_def Let_def)
  have n: "submatches (fst (Match_Name m name)) = submatches m"
    "names (fst (Match_Name m name)) = names m"
    by (simp_all add: Match_Name_def Match_Index_def Let_def split: option.splits)
  have me: "submatches (Match_Empty m) = submatches m" "names (Match_Empty m) = names m"
    "submatches (Match_NotEmpty m) = submatches m" "names (Match_NotEmpty m) = names m"
    by (simp_all add: Match_Empty_def Match_NotEmpty_def)
  have mv: "submatches (Match_Values m vs) = submatches m" "names (Match_Values m vs) = names m"
    "submatches (Match_NotValues m vs) = submatches m" "names (Match_NotValues m vs) = names m"
    by (simp_all add: Match_Values_def Match_NotValues_def Let_def)
  have mr: "Match_Raw m = submatches m" by (simp add: Match_Raw_def)
  show ?thesis
    by (intro conjI p s v e value_Object_Equal value_Object_NotEqual value_Object_ContainsKey nk
        value_Object_ContainsMap value_Object_NotContainsMap value_Object_ValueEqual
        value_Object_ValueNotEqual r i n me mv mr)
qed

theorem payload_unchanged_witness:
  "Object.value (Object_ValueEqual (\<lambda>v. Inr (Number 456))
       \<lparr>Object.chain = makeChain ([] :: unit Reporter),
        Object.value = Some [(''foo'', Number 123)]\<rparr> ''foo'' (OtherVal ())) =
     Some [(''foo'', Number 123)]
   \<and> reporter (Object.chain (Object_ValueEqual (\<lambda>v. Inr (Number 456))
       \<lparr>Object.chain = makeChain ([] :: unit Reporter),
        Object.value = Some [(''foo'', Number 123)]\<rparr> ''foo'' (OtherVal ()))) \<noteq> []
   \<and> submatches (fst (Match_Index (makeMatch (makeChain ([] :: unit Reporter)) (Some [''a'']) []) 5)) = [''a'']"
proof -
  let ?obj = "\<lparr>Object.chain = makeChain ([] :: unit Reporter),
               Object.value = Some [(''foo'', Number 123)]\<rparr>"
  let ?m = "makeMatch (makeChain ([] :: unit Reporter)) (Some [''a'']) []"
  note t = payload_unchanged [where obj = ?obj and cv = "\<lambda>v. Inr (Number 456)" and key = "''foo''"
      and v = "OtherVal ()" and m = ?m and i = 5]
  from t have a: "Object.value (Object_ValueEqual (\<lambda>v. Inr (Number 456)) ?obj ''foo'' (OtherVal ())) =
      Object.value ?obj" by blast
  from t have b: "submatches (fst (Match_Index ?m 5)) = submatches ?m" by blast
  have c: "reporter (Object.chain (Object_ValueEqual (\<lambda>v. Inr (Number 456)) ?obj ''foo'' (OtherVal ()))) \<noteq> []"
    by (simp add: Object_ValueEqual_def Object_ContainsKey_def containsKey_def Let_def
        chain_failed_def makeChain_def canonValue_def mapIndex_def reporter_chain_fail)
  have d: "Object.value ?obj = Some [(''foo'', Number 123)]" "submatches ?m = [''a'']"
    by (simp_all add: makeMatch_def)
  show ?thesis using a b c unfolding d by blast
qed

lemma deepEqualMap_empty: "deepEqualMap (Some []) v \<longleftrightarrow> v = Some []"
  by (cases v) auto

text \<open>
  C10. \<open>Empty\<close> is \<open>Equal\<close> applied to the empty map and \<open>NotEmpty\<close> is \<open>NotEqual\<close> applied to
  the empty map. With the empty map canonicalizing to the empty mapping, \<open>Empty\<close> records
  nothing exactly when the object's map is the empty (non-\<^verbatim>\<open>nil\<close>) map and otherwise the
  failure of \<open>Object.Equal\<close>, of the equal kind; \<open>NotEmpty\<close> records the failure of
  \<open>Object.NotEqual\<close>, of the not-equal kind, exactly when the object's map is the empty
  map. Neither ever records a failure of the empty or the not-empty kind.
\<close>

theorem Empty_is_Equal_of_empty_map:
  "Object_Empty cv obj = Object_Equal cv obj (MapVal (Some []))
   \<and> Object_NotEmpty cv obj = Object_NotEqual cv obj (MapVal (Some []))
   \<and> (cv (MapVal (Some [])) = Inr (Mapping []) \<longrightarrow>
        Object_Empty cv obj =
          (if Object.value obj = Some [] then obj
           else obj\<lparr>Object.chain := chain_fail (Object.chain obj)
                  \<lparr>assertionName = ''Object.Equal'', assertType = failureAssertEqual,
                   expected = OfMap (Some []), actual = OfMap (Object.value obj),
                   err = None\<rparr>\<rparr>)
        \<and> Object_NotEmpty cv obj =
          (if Object.value obj = Some [] then
             obj\<lparr>Object.chain := chain_fail (Object.chain obj)
                  \<lparr>assertionName = ''Object.NotEqual'', assertType = failureAssertNotEqual,
                   expected = OfRaw (MapVal (Some [])), actual = Unset, err = None\<rparr>\<rparr>
           else obj))
   \<and> (\<exists>fs. reporter (Object.chain (Object_Empty cv obj)) = reporter (Object.chain obj) @ fs
          \<and> (\<forall>f \<in> set fs. assertType f = failureAssertEqual \<or> assertType f = failureInvalidInput))
   \<and> (\<exists>fs. reporter (Object.chain (Object_NotEmpty cv obj)) = reporter (Object.chain obj) @ fs
          \<and> (\<forall>f \<in> set fs. assertType f = failureAssertNotEqual \<or> assertType f = failureInvalidInput))"
proof (intro conjI impI)
  show "Object_Empty cv obj = Object_Equal cv obj (MapVal (Some []))"
    by (simp add: Object_Empty_def)
  show "Object_NotEmpty cv obj = Object_NotEqual cv obj (MapVal (Some []))"
    by (simp add: Object_NotEmpty_def)
next
  assume c: "cv (MapVal (Some [])) = Inr (Mapping [])"
  show "Object_Empty cv obj =
          (if Object.value obj = Some [] then obj
           else obj\<lparr>Object.chain := chain_fail (Object.chain obj)
                  \<lparr>assertionName = ''Object.Equal'', assertType = failureAssertEqual,
                   expected = OfMap (Some []), actual = OfMap (Object.value obj),
                   err = None\<rparr>\<rparr>)"
    using c by (simp add: Object_Empty_def Object_Equal_def canonMap_Mapping deepEqualMap_empty)
  show "Object_NotEmpty cv obj =
          (if Object.value obj = Some [] then
             obj\<lparr>Object.chain := chain_fail (Object.chain obj)
                  \<lparr>assertionName = ''Object.NotEqual'', assertType = failureAssertNotEqual,
                   expected = OfRaw (MapVal (Some [])), actual = Unset, err = None\<rparr>\<rparr>
           else obj)"
    using c by (simp add: Object_NotEmpty_def Object_NotEqual_def canonMap_Mapping deepEqualMap_empty)
next
  show "\<exists>fs. reporter (Object.chain (Object_Empty cv obj)) = reporter (Object.chain obj) @ fs
          \<and> (\<forall>f \<in> set fs. assertType f = failureAssertEqual \<or> assertType f = failureInvalidInput)"
  proof (cases rule: canonMap_cases [of cv "MapVal (Some [])" "Object.chain obj"])
    case (ok m)
    show ?thesis
    proof (cases "deepEqualMap (Some m) (Object.value obj)")
      case True
      with ok have "reporter (Object.chain (Object_Empty cv obj)) = reporter (Object.chain obj) @ []"
        by (simp add: Object_Empty_def Object_Equal_def)
      then show ?thesis by (intro exI [of _ "[]"]) simp
    next
      case False
      with ok have "reporter (Object.chain (Object_Empty cv obj)) = reporter (Object.chain obj) @
          [\<lparr>assertionName = ''Object.Equal'', assertType = failureAssertEqual,
            expected = OfMap (Some m), actual = OfMap (Object.value obj), err = None\<rparr>]"
        by (simp add: Object_Empty_def Object_Equal_def reporter_chain_fail)
      then show ?thesis
        by (intro exI [of _ "[\<lparr>assertionName = ''Object.Equal'', assertType = failureAssertEqual,
            expected = OfMap (Some m), actual = OfMap (Object.value obj), err = None\<rparr>]"]) simp
    qed
  next
    case (bad f)
    then have "reporter (Object.chain (Object_Empty cv obj)) = reporter (Object.chain obj) @ [f]"
      by (simp add: Object_Empty_def Object_Equal_def reporter_chain_fail)
    with bad(2) show ?thesis by (intro exI [of _ "[f]"]) simp
  qed
next
  show "\<exists>fs. reporter (Object.chain (Object_NotEmpty cv obj)) = reporter (Object.chain obj) @ fs
          \<and> (\<forall>f \<in> set fs. assertType f = failureAssertNotEqual \<or> assertType f = failureInvalidInput)"
  proof (cases rule: canonMap_cases [of cv "MapVal (Some [])" "Object.chain obj"])
    case (ok m)
    show ?thesis
    proof (cases "deepEqualMap (Some m) (Object.value obj)")
      case False
      with ok have "reporter (Object.chain (Object_NotEmpty cv obj)) = reporter (Object.chain obj) @ []"
        by (simp add: Object_NotEmpty_def Object_NotEqual_def)
      then show ?thesis by (intro exI [of _ "[]"]) simp
    next
      case True
      with ok have "reporter (Object.chain (Object_NotEmpty cv obj)) = reporter (Object.chain obj) @
          [\<lparr>assertionName = ''Object.NotEqual'', assertType = failureAssertNotEqual,
            expected = OfRaw (MapVal (Some [])), actual = Unset, err = None\<rparr>]"
        by (simp add: Object_NotEmpty_def Object_NotEqual_def reporter_chain_fail)
      then show ?thesis
        by (intro exI [of _ "[\<lparr>assertionName = ''Object.NotEqual'', assertType = failureAssertNotEqual,
            expected = OfRaw (MapVal (Some [])), actual = Unset, err = None\<rparr>]"]) simp
    qed
  next
    case (bad f)
    then have "reporter (Object.chain (Object_NotEmpty cv obj)) = reporter (Object.chain obj) @ [f]"
      by (simp add: Object_NotEmpty_def Object_NotEqual_def reporter_chain_fail)
    with bad(2) show ?thesis by (intro exI [of _ "[f]"]) simp
  qed
qed

theorem Empty_is_Equal_of_empty_map_witness:
  "(\<lambda>v :: unit goval. case v of MapVal (Some []) \<Rightarrow> Inr (Mapping []) | _ \<Rightarrow> Inl ''unsupported'')
       (MapVal (Some [])) = (Inr (Mapping []) :: string + canon)
   \<and> Object_Empty (\<lambda>v. case v of MapVal (Some []) \<Rightarrow> Inr (Mapping []) | _ \<Rightarrow> Inl ''unsupported'')
       \<lparr>Object.chain = makeChain ([] :: unit Reporter), Object.value = Some []\<rparr> =
       \<lparr>Object.chain = makeChain ([] :: unit Reporter), Object.value = Some []\<rparr>
   \<and> reporter (Object.chain (Object_Empty
         (\<lambda>v. case v of MapVal (Some []) \<Rightarrow> Inr (Mapping []) | _ \<Rightarrow> Inl ''unsupported'')
         \<lparr>Object.chain = makeChain ([] :: unit Reporter),
          Object.value = Some [(''foo'', Number 123)]\<rparr>)) =
       [\<lparr>assertionName = ''Object.Equal'', assertType = failureAssertEqual,
         expected = OfMap (Some []), actual = OfMap (Some [(''foo'', Number 123)]),
         err = None\<rparr>]
   \<and> reporter (Object.chain (Object_NotEmpty
         (\<lambda>v. case v of MapVal (Some []) \<Rightarrow> Inr (Mapping []) | _ \<Rightarrow> Inl ''unsupported'')
         \<lparr>Object.chain = makeChain ([] :: unit Reporter), Object.value = Some []\<rparr>)) =
       [\<lparr>assertionName = ''Object.NotEqual'', assertType = failureAssertNotEqual,
         expected = OfRaw (MapVal (Some [])), actual = Unset, err = None\<rparr>]"
proof -
  let ?cv = "\<lambda>v :: unit goval. case v of MapVal (Some []) \<Rightarrow> Inr (Mapping [])
                | _ \<Rightarrow> (Inl ''unsupported'' :: string + canon)"
  let ?e = "\<lparr>Object.chain = makeChain ([] :: unit Reporter), Object.value = Some []\<rparr>"
  let ?o = "\<lparr>Object.chain = makeChain ([] :: unit Reporter),
             Object.value = Some [(''foo'', Number 123)]\<rparr>"
  have h: "?cv (MapVal (Some [])) = Inr (Mapping [])" by simp
  from Empty_is_Equal_of_empty_map [where cv = ?cv and obj = ?e] h
  have a: "Object_Empty ?cv ?e =
          (if Object.value ?e = Some [] then ?e
           else ?e\<lparr>Object.chain := chain_fail (Object.chain ?e)
                  \<lparr>assertionName = ''Object.Equal'', assertType = failureAssertEqual,
                   expected = OfMap (Some []), actual = OfMap (Object.value ?e),
                   err = None\<rparr>\<rparr>)"
    and b: "Object_NotEmpty ?cv ?e =
          (if Object.value ?e = Some [] then
             ?e\<lparr>Object.chain := chain_fail (Object.chain ?e)
                  \<lparr>assertionName = ''Object.NotEqual'', assertType = failureAssertNotEqual,
                   expected = OfRaw (MapVal (Some [])), actual = Unset, err = None\<rparr>\<rparr>
           else ?e)"
    by blast+
  from Empty_is_Equal_of_empty_map [where cv = ?cv and obj = ?o] h
  have c: "Object_Empty ?cv ?o =
          (if Object.value ?o = Some [] then ?o
           else ?o\<lparr>Object.chain := chain_fail (Object.chain ?o)
                  \<lparr>assertionName = ''Object.Equal'', assertType = failureAssertEqual,
                   expected = OfMap (Some []), actual = OfMap (Object.value ?o),
                   err = None\<rparr>\<rparr>)"
    by blast
  have a': "Object_Empty ?cv ?e = ?e" unfolding a by simp
  have b': "reporter (Object.chain (Object_NotEmpty ?cv ?e)) =
       [\<lparr>assertionName = ''Object.NotEqual'', assertType = failureAssertNotEqual,
         expected = OfRaw (MapVal (Some [])), actual = Unset, err = None\<rparr>]"
    unfolding b by (simp add: reporter_chain_fail makeChain_def)
  have c': "reporter (Object.chain (Object_Empty ?cv ?o)) =
       [\<lparr>assertionName = ''Object.Equal'', assertType = failureAssertEqual,
         expected = OfMap (Some []), actual = OfMap (Some [(''foo'', Number 123)]),
         err = None\<rparr>]"
    unfolding c by (simp add: reporter_chain_fail makeChain_def)
  show ?thesis by (intro conjI) (rule h a' c' b')+
qed

end
